theory Spec2Isabelle
  imports Complex_Main "HOL-Library.Multiset"
begin

section \<open>The rendering library, as far as the editor uses it\<close>

text \<open>
  The editor draws on a canvas of the fabric library, which is not part of the
  repository. The content of a canvas is a value of a type \<open>'c\<close> that the model never
  looks into, and the library calls that read or replace it are a parameter:
  \<^item> \<open>toJSON c\<close> is the string \<^verbatim>\<open>JSON.stringify(canvas.toJSON())\<close>;
  \<^item> \<open>toSVG c\<close> is the string \<^verbatim>\<open>canvas.toSVG()\<close>;
  \<^item> \<open>clear c\<close> is the content that \<^verbatim>\<open>canvas.clear()\<close> leaves;
  \<^item> \<open>loadFromJSON j c\<close> is the content that the canvas has when the call
    \<^verbatim>\<open>canvas.loadFromJSON(j, ...)\<close> returns.
  The sources use version 6 of the library (\<^verbatim>\<open>clone().then(...)\<close>,
  \<^verbatim>\<open>fabric.TPointerEvent\<close>), in which \<^verbatim>\<open>loadFromJSON\<close> returns a Promise, and
  no caller awaits it: when the call returns, the load may still be pending and the
  content as it was before the call. While a call runs, the canvas may fire
  \<^verbatim>\<open>object:added\<close>, \<^verbatim>\<open>object:removed\<close> and
  \<^verbatim>\<open>object:modified\<close> events; what it fires is an input of the model too: a
  list of events, each with the content the canvas has when the event fires and the
  value \<^verbatim>\<open>Date.now()\<close> has then. A pending load fires its events when it resolves,
  after the handler that started it has returned: a second list of events, delivered to
  the same listeners.
\<close>

record 'c fabric =
  toJSON :: "'c \<Rightarrow> string"
  toSVG :: "'c \<Rightarrow> string"
  clear :: "'c \<Rightarrow> 'c"
  loadFromJSON :: "string \<Rightarrow> 'c \<Rightarrow> 'c"

type_synonym 'c canvas_event = "'c \<times> nat"

datatype js_error = TypeError

subsection \<open>JavaScript arrays\<close>

text \<open>\<^verbatim>\<open>xs.slice(0, e)\<close>: a negative end counts from the end of the array.\<close>

definition js_slice0 :: "int \<Rightarrow> 'a list \<Rightarrow> 'a list" where
  "js_slice0 e xs =
     (if e < 0 then take (nat (int (length xs) + e)) xs else take (nat e) xs)"

text \<open>\<^verbatim>\<open>xs[i]\<close>: \<^verbatim>\<open>undefined\<close> (here \<open>None\<close>) outside the array.\<close>

definition js_index :: "'a list \<Rightarrow> int \<Rightarrow> 'a option" where
  "js_index xs i = (if 0 \<le> i \<and> i < int (length xs) then Some (xs ! nat i) else None)"

section \<open>The class HistoryManager (utils/historyManager.ts)\<close>

definition MAX_HISTORY_LENGTH :: nat where
  "MAX_HISTORY_LENGTH = 50"

record HistoryState =
  canvasState :: string
  timestamp :: nat

record 'c HistoryManager =
  history :: "HistoryState list"
  currentStateIndex :: int
  canvas :: 'c
  isProcessingAction :: bool

text \<open>\<^verbatim>\<open>saveState()\<close>; \<open>now\<close> is what \<^verbatim>\<open>Date.now()\<close> returns.\<close>

definition saveState :: "'c fabric \<Rightarrow> nat \<Rightarrow> 'c HistoryManager \<Rightarrow> 'c HistoryManager" where
  "saveState fab now s =
     (if isProcessingAction s then s
      else
        let newState = \<lparr>canvasState = toJSON fab (canvas s), timestamp = now\<rparr>;
            h1 = (if currentStateIndex s < int (length (history s)) - 1
                  then js_slice0 (currentStateIndex s + 1) (history s)
                  else history s);
            h2 = h1 @ [newState];
            i2 = int (length h2) - 1
        in if length h2 > MAX_HISTORY_LENGTH
           then s\<lparr>history := tl h2, currentStateIndex := i2 - 1\<rparr>
           else s\<lparr>history := h2, currentStateIndex := i2\<rparr>)"

text \<open>
  The listeners of \<^verbatim>\<open>setupCanvasListeners\<close>: every event the canvas fires calls
  \<^verbatim>\<open>saveState()\<close>, on the content the canvas has at that moment.
\<close>

definition fireEvents ::
  "'c fabric \<Rightarrow> 'c canvas_event list \<Rightarrow> 'c HistoryManager \<Rightarrow> 'c HistoryManager" where
  "fireEvents fab evs s = fold (\<lambda>(c, now) s'. saveState fab now (s'\<lparr>canvas := c\<rparr>)) evs s"

text \<open>
  What the library fires during one \<^verbatim>\<open>loadState\<close>: the events of
  \<^verbatim>\<open>canvas.clear()\<close>, then those of \<^verbatim>\<open>canvas.loadFromJSON\<close>.
\<close>

record 'c replay =
  clearEvents :: "'c canvas_event list"
  loadEvents :: "'c canvas_event list"

text \<open>
  \<^verbatim>\<open>loadState(state)\<close>. Its argument is \<^verbatim>\<open>this.history[i]\<close>, which is
  \<^verbatim>\<open>undefined\<close> outside the array: then the canvas is cleared and reading
  \<^verbatim>\<open>state.canvasState\<close> throws. The first component of the result is the
  exception thrown, if any; the second is the state the object is left in.
\<close>

definition loadState ::
  "'c fabric \<Rightarrow> 'c replay \<Rightarrow> HistoryState option \<Rightarrow> 'c HistoryManager
     \<Rightarrow> js_error option \<times> 'c HistoryManager" where
  "loadState fab r st s =
     (let s1 = fireEvents fab (clearEvents r) s;
          s2 = s1\<lparr>canvas := clear fab (canvas s1)\<rparr>
      in case st of
           None \<Rightarrow> (Some TypeError, s2)
         | Some state \<Rightarrow>
             (let s3 = fireEvents fab (loadEvents r) s2
              in (None, s3\<lparr>canvas := loadFromJSON fab (canvasState state) (canvas s3)\<rparr>)))"

text \<open>
  \<^verbatim>\<open>undo()\<close> and \<^verbatim>\<open>redo()\<close> return a boolean, or the exception of
  \<^verbatim>\<open>loadState\<close> leaves them (\<open>Inl\<close>), before the guard is reset.
\<close>

definition undo ::
  "'c fabric \<Rightarrow> 'c replay \<Rightarrow> 'c HistoryManager \<Rightarrow> (js_error + bool) \<times> 'c HistoryManager" where
  "undo fab r s =
     (if currentStateIndex s \<le> 0 then (Inr False, s)
      else
        let s1 = s\<lparr>isProcessingAction := True\<rparr>;
            s2 = s1\<lparr>currentStateIndex := currentStateIndex s1 - 1\<rparr>
        in case loadState fab r (js_index (history s2) (currentStateIndex s2)) s2 of
             (Some e, s3) \<Rightarrow> (Inl e, s3)
           | (None, s3) \<Rightarrow> (Inr True, s3\<lparr>isProcessingAction := False\<rparr>))"

definition redo ::
  "'c fabric \<Rightarrow> 'c replay \<Rightarrow> 'c HistoryManager \<Rightarrow> (js_error + bool) \<times> 'c HistoryManager" where
  "redo fab r s =
     (if currentStateIndex s \<ge> int (length (history s)) - 1 then (Inr False, s)
      else
        let s1 = s\<lparr>isProcessingAction := True\<rparr>;
            s2 = s1\<lparr>currentStateIndex := currentStateIndex s1 + 1\<rparr>
        in case loadState fab r (js_index (history s2) (currentStateIndex s2)) s2 of
             (Some e, s3) \<Rightarrow> (Inl e, s3)
           | (None, s3) \<Rightarrow> (Inr True, s3\<lparr>isProcessingAction := False\<rparr>))"

definition canUndo :: "'c HistoryManager \<Rightarrow> bool" where
  "canUndo s = (currentStateIndex s > 0)"

definition canRedo :: "'c HistoryManager \<Rightarrow> bool" where
  "canRedo s = (currentStateIndex s < int (length (history s)) - 1)"

definition clearHistory :: "'c fabric \<Rightarrow> nat \<Rightarrow> 'c HistoryManager \<Rightarrow> 'c HistoryManager" where
  "clearHistory fab now s = saveState fab now (s\<lparr>history := [], currentStateIndex := - 1\<rparr>)"

text \<open>
  The constructor, on a canvas of content \<open>c\<close>: the fields' initial values, then
  \<^verbatim>\<open>this.saveState()\<close>.
\<close>

definition initialFields :: "'c \<Rightarrow> 'c HistoryManager" where
  "initialFields c =
     \<lparr>history = [], currentStateIndex = - 1, canvas = c, isProcessingAction = False\<rparr>"

definition newHistoryManager :: "'c fabric \<Rightarrow> 'c \<Rightarrow> nat \<Rightarrow> 'c HistoryManager" where
  "newHistoryManager fab c now = saveState fab now (initialFields c)"

text \<open>
  A use of the object over time: the canvas content changes (\<open>Mutate\<close>, by a drawing
  or an edit), and the methods are called. A committed mutation is a change of content
  followed by one \<^verbatim>\<open>saveState()\<close>.
\<close>

datatype 'c history_op =
    Mutate 'c
  | SaveState nat
  | Undo "'c replay"
  | Redo "'c replay"
  | ClearHistory nat

fun step :: "'c fabric \<Rightarrow> 'c history_op \<Rightarrow> 'c HistoryManager \<Rightarrow> 'c HistoryManager" where
  "step fab (Mutate c) s = s\<lparr>canvas := c\<rparr>"
| "step fab (SaveState now) s = saveState fab now s"
| "step fab (Undo r) s = snd (undo fab r s)"
| "step fab (Redo r) s = snd (redo fab r s)"
| "step fab (ClearHistory now) s = clearHistory fab now s"

definition run :: "'c fabric \<Rightarrow> 'c history_op list \<Rightarrow> 'c HistoryManager \<Rightarrow> 'c HistoryManager" where
  "run fab ops s = fold (step fab) ops s"

definition commit :: "'c fabric \<Rightarrow> 'c \<times> nat \<Rightarrow> 'c HistoryManager \<Rightarrow> 'c HistoryManager" where
  "commit fab m s = saveState fab (snd m) (s\<lparr>canvas := fst m\<rparr>)"

definition commits :: "'c fabric \<Rightarrow> ('c \<times> nat) list \<Rightarrow> 'c HistoryManager \<Rightarrow> 'c HistoryManager" where
  "commits fab ms s = fold (commit fab) ms s"

definition undos :: "'c fabric \<Rightarrow> 'c replay list \<Rightarrow> 'c HistoryManager \<Rightarrow> 'c HistoryManager" where
  "undos fab rs s = fold (\<lambda>r s'. snd (undo fab r s')) rs s"

text \<open>
  An undo whose load is pending when \<^verbatim>\<open>undo()\<close> returns: the load resolves
  afterwards, and the events \<open>late\<close> that it fires then reach the listeners.
\<close>

definition undoAndSettle ::
  "'c fabric \<Rightarrow> 'c replay \<Rightarrow> 'c canvas_event list \<Rightarrow> 'c HistoryManager \<Rightarrow> 'c HistoryManager" where
  "undoAndSettle fab r late s = fireEvents fab late (snd (undo fab r s))"

section \<open>The hook useHistory (hooks/useHistory, second half of utils/fileOperations.ts)\<close>

text \<open>
  The editor itself uses this second implementation. Its three refs and its two pieces
  of React state, \<^verbatim>\<open>canUndo\<close> and \<^verbatim>\<open>canRedo\<close>, are the fields of the
  state; a \<^verbatim>\<open>setCanUndo\<close> is taken to be in effect when the next handler runs.
  The hook's argument \<^verbatim>\<open>canvas\<close> is \<^verbatim>\<open>null\<close> until the canvas exists:
  \<open>canvasArg\<close> is \<open>None\<close> then, and the content of the canvas afterwards.
\<close>

record HistoryEntry =
  json :: string
  entryTimestamp :: nat

record 'c useHistory =
  historyRef :: "HistoryEntry list"
  currentIndexRef :: int
  isProcessingHistoryRef :: bool
  canUndoState :: bool
  canRedoState :: bool
  canvasArg :: "'c option"

definition useHistory_saveState :: "'c fabric \<Rightarrow> nat \<Rightarrow> 'c useHistory \<Rightarrow> 'c useHistory" where
  "useHistory_saveState fab now s =
     (case canvasArg s of
        None \<Rightarrow> s
      | Some c \<Rightarrow>
          if isProcessingHistoryRef s then s
          else
            let newState = \<lparr>json = toJSON fab c, entryTimestamp = now\<rparr>;
                h1 = (if currentIndexRef s < int (length (historyRef s)) - 1
                      then js_slice0 (currentIndexRef s + 1) (historyRef s)
                      else historyRef s);
                h2 = h1 @ [newState];
                i2 = int (length h2) - 1;
                s1 = (if length h2 > MAX_HISTORY_LENGTH
                      then s\<lparr>historyRef := tl h2, currentIndexRef := i2 - 1\<rparr>
                      else s\<lparr>historyRef := h2, currentIndexRef := i2\<rparr>)
            in s1\<lparr>canUndoState := (currentIndexRef s1 > 0), canRedoState := False\<rparr>)"

definition handleHistoryEvent :: "'c fabric \<Rightarrow> nat \<Rightarrow> 'c useHistory \<Rightarrow> 'c useHistory" where
  "handleHistoryEvent fab now s =
     (if \<not> isProcessingHistoryRef s then useHistory_saveState fab now s else s)"

text \<open>The canvas fires its events to \<^verbatim>\<open>handleHistoryEvent\<close>.\<close>

definition useHistory_fireEvents ::
  "'c fabric \<Rightarrow> 'c canvas_event list \<Rightarrow> 'c useHistory \<Rightarrow> 'c useHistory" where
  "useHistory_fireEvents fab evs s =
     fold (\<lambda>(c, now) s'. handleHistoryEvent fab now (s'\<lparr>canvasArg := Some c\<rparr>)) evs s"

text \<open>
  \<^verbatim>\<open>undo\<close> and \<^verbatim>\<open>redo\<close> call \<^verbatim>\<open>canvas.loadFromJSON\<close> only, inside a
  \<^verbatim>\<open>try\<close>: when the entry read is \<^verbatim>\<open>undefined\<close>, reading its
  \<^verbatim>\<open>json\<close> throws, and the handler of the exception resets the guard. \<open>evs\<close> are
  the events that the canvas fires during the load.
\<close>

definition useHistory_undo ::
  "'c fabric \<Rightarrow> 'c canvas_event list \<Rightarrow> 'c useHistory \<Rightarrow> 'c useHistory" where
  "useHistory_undo fab evs s =
     (if canvasArg s = None \<or> \<not> canUndoState s \<or> currentIndexRef s \<le> 0 then s
      else
        let s1 = s\<lparr>isProcessingHistoryRef := True\<rparr>;
            s2 = s1\<lparr>currentIndexRef := currentIndexRef s1 - 1\<rparr>
        in case js_index (historyRef s2) (currentIndexRef s2) of
             None \<Rightarrow> s2\<lparr>isProcessingHistoryRef := False\<rparr>
           | Some state \<Rightarrow>
               (let s3 = useHistory_fireEvents fab evs s2;
                    s4 = s3\<lparr>canvasArg := map_option (loadFromJSON fab (json state)) (canvasArg s3)\<rparr>;
                    s5 = s4\<lparr>canUndoState := (currentIndexRef s4 > 0),
                            canRedoState := (currentIndexRef s4 < int (length (historyRef s4)) - 1)\<rparr>
                in s5\<lparr>isProcessingHistoryRef := False\<rparr>))"

definition useHistory_redo ::
  "'c fabric \<Rightarrow> 'c canvas_event list \<Rightarrow> 'c useHistory \<Rightarrow> 'c useHistory" where
  "useHistory_redo fab evs s =
     (if canvasArg s = None \<or> \<not> canRedoState s
         \<or> currentIndexRef s \<ge> int (length (historyRef s)) - 1 then s
      else
        let s1 = s\<lparr>isProcessingHistoryRef := True\<rparr>;
            s2 = s1\<lparr>currentIndexRef := currentIndexRef s1 + 1\<rparr>
        in case js_index (historyRef s2) (currentIndexRef s2) of
             None \<Rightarrow> s2\<lparr>isProcessingHistoryRef := False\<rparr>
           | Some state \<Rightarrow>
               (let s3 = useHistory_fireEvents fab evs s2;
                    s4 = s3\<lparr>canvasArg := map_option (loadFromJSON fab (json state)) (canvasArg s3)\<rparr>;
                    s5 = s4\<lparr>canUndoState := (currentIndexRef s4 > 0),
                            canRedoState := (currentIndexRef s4 < int (length (historyRef s4)) - 1)\<rparr>
                in s5\<lparr>isProcessingHistoryRef := False\<rparr>))"

definition useHistory_clearHistory :: "'c fabric \<Rightarrow> nat \<Rightarrow> 'c useHistory \<Rightarrow> 'c useHistory" where
  "useHistory_clearHistory fab now s =
     (let s1 = useHistory_saveState fab now (s\<lparr>historyRef := [], currentIndexRef := - 1\<rparr>)
      in s1\<lparr>canUndoState := False, canRedoState := False\<rparr>)"

text \<open>
  The first render, and the effect that runs once the canvas exists: it calls
  \<^verbatim>\<open>saveState()\<close> and attaches the listeners.
\<close>

definition initialRefs :: "'c option \<Rightarrow> 'c useHistory" where
  "initialRefs c =
     \<lparr>historyRef = [], currentIndexRef = - 1, isProcessingHistoryRef = False,
      canUndoState = False, canRedoState = False, canvasArg = c\<rparr>"

definition mountHistory :: "'c fabric \<Rightarrow> 'c \<Rightarrow> nat \<Rightarrow> 'c useHistory" where
  "mountHistory fab c now = useHistory_saveState fab now (initialRefs (Some c))"

datatype 'c hook_op =
    HMutate 'c
  | HSaveState nat
  | HUndo "'c canvas_event list"
  | HRedo "'c canvas_event list"
  | HClearHistory nat

fun hook_step :: "'c fabric \<Rightarrow> 'c hook_op \<Rightarrow> 'c useHistory \<Rightarrow> 'c useHistory" where
  "hook_step fab (HMutate c) s = s\<lparr>canvasArg := map_option (\<lambda>_. c) (canvasArg s)\<rparr>"
| "hook_step fab (HSaveState now) s = useHistory_saveState fab now s"
| "hook_step fab (HUndo evs) s = useHistory_undo fab evs s"
| "hook_step fab (HRedo evs) s = useHistory_redo fab evs s"
| "hook_step fab (HClearHistory now) s = useHistory_clearHistory fab now s"

definition hook_run :: "'c fabric \<Rightarrow> 'c hook_op list \<Rightarrow> 'c useHistory \<Rightarrow> 'c useHistory" where
  "hook_run fab ops s = fold (hook_step fab) ops s"

definition hook_commit :: "'c fabric \<Rightarrow> 'c \<times> nat \<Rightarrow> 'c useHistory \<Rightarrow> 'c useHistory" where
  "hook_commit fab m s =
     useHistory_saveState fab (snd m) (s\<lparr>canvasArg := map_option (\<lambda>_. fst m) (canvasArg s)\<rparr>)"

definition hook_commits :: "'c fabric \<Rightarrow> ('c \<times> nat) list \<Rightarrow> 'c useHistory \<Rightarrow> 'c useHistory" where
  "hook_commits fab ms s = fold (hook_commit fab) ms s"

definition hook_undos ::
  "'c fabric \<Rightarrow> 'c canvas_event list list \<Rightarrow> 'c useHistory \<Rightarrow> 'c useHistory" where
  "hook_undos fab rs s = fold (useHistory_undo fab) rs s"

text \<open>The same for the hook: an undo, and then the events of the load that resolves.\<close>

definition useHistory_undoAndSettle ::
  "'c fabric \<Rightarrow> 'c canvas_event list \<Rightarrow> 'c canvas_event list \<Rightarrow> 'c useHistory \<Rightarrow> 'c useHistory" where
  "useHistory_undoAndSettle fab evs late s =
     useHistory_fireEvents fab late (useHistory_undo fab evs s)"

section \<open>The drawing handlers (components/canvas/Canvas.tsx)\<close>

text \<open>
  A JavaScript number is a real number here; rounding in the floating-point unit is left
  out. A fabric object is a bag of properties: the record has the ones the handlers read
  or write. What a constructor of the library gives to the properties that the handler
  does not pass is a parameter \<open>d\<close> of the model. Of what the library derives from the
  properties that are set, the model has the bounding box of an ellipse; the position
  that the library gives to a line or a polygon is not modelled. Objects are shared
  between the ref \<^verbatim>\<open>currentObject\<close> and the canvas, so they live in a store and
  both hold addresses.
  The listeners of the history are left out of this section.
\<close>

datatype ToolType =
  Tselect | Trectangle | Tellipse | Tline | Tpath | Tpencil | Ttext | Tpolygon | Tpan

datatype shape = Rect | Ellipse | Line | Polygon | IText

record fabric_object =
  shape :: shape
  left :: real
  top' :: real
  width :: real
  height :: real
  rx :: real
  ry :: real
  x1 :: real
  y1 :: real
  x2 :: real
  y2 :: real
  points :: "(real \<times> real) list option"

record drawing =
  fabricCanvas :: "nat list option"
  store :: "nat \<Rightarrow> fabric_object"
  nextRef :: nat
  isDrawing :: bool
  currentObject :: "nat option"
  activeObject :: "nat option"
  viewportPan :: "real \<times> real"
  updates :: nat

text \<open>\<^verbatim>\<open>currentObject.current = new fabric.X(...); fabricCanvas.add(currentObject.current)\<close>\<close>

definition addNew :: "fabric_object \<Rightarrow> drawing \<Rightarrow> drawing" where
  "addNew obj s =
     s\<lparr>store := (store s)(nextRef s := obj),
       nextRef := nextRef s + 1,
       currentObject := Some (nextRef s),
       fabricCanvas := map_option (\<lambda>cv. cv @ [nextRef s]) (fabricCanvas s)\<rparr>"

text \<open>
  \<^verbatim>\<open>obj.set({ rx, ry })\<close>. On an ellipse the library derives the bounding box
  from the radii, \<^verbatim>\<open>width = 2 * rx\<close> and \<^verbatim>\<open>height = 2 * ry\<close>, also in the
  constructor; on another object the two properties are only stored.
\<close>

definition set_radii :: "real \<Rightarrow> real \<Rightarrow> fabric_object \<Rightarrow> fabric_object" where
  "set_radii a b obj =
     (if shape obj = Ellipse then obj\<lparr>rx := a, ry := b, width := 2 * a, height := 2 * b\<rparr>
      else obj\<lparr>rx := a, ry := b\<rparr>)"

definition handleMouseDown ::
  "fabric_object \<Rightarrow> ToolType \<Rightarrow> real \<times> real \<Rightarrow> drawing \<Rightarrow> drawing" where
  "handleMouseDown d currentTool pointer s =
     (if fabricCanvas s = None then s
      else
        let s1 = s\<lparr>isDrawing := True\<rparr> in
        case currentTool of
          Tselect \<Rightarrow> s1
        | Trectangle \<Rightarrow>
            addNew (d\<lparr>shape := Rect, left := fst pointer, top' := snd pointer,
                      width := 0, height := 0\<rparr>) s1
        | Tellipse \<Rightarrow>
            addNew (set_radii 0 0 (d\<lparr>shape := Ellipse, left := fst pointer,
                                       top' := snd pointer\<rparr>)) s1
        | Tline \<Rightarrow>
            addNew (d\<lparr>shape := Line, x1 := fst pointer, y1 := snd pointer,
                      x2 := fst pointer, y2 := snd pointer\<rparr>) s1
        | Tpolygon \<Rightarrow>
            (if currentObject s1 = None
             then addNew (d\<lparr>shape := Polygon, points := Some [pointer, pointer]\<rparr>) s1
             else s1)
        | Ttext \<Rightarrow>
            (let s2 = addNew (d\<lparr>shape := IText, left := fst pointer, top' := snd pointer\<rparr>) s1
             in s2\<lparr>activeObject := currentObject s2, isDrawing := False\<rparr>)
        | Tpan \<Rightarrow> s1
        | _ \<Rightarrow> s1)"

text \<open>
  \<open>movement\<close> is \<^verbatim>\<open>(e.movementX, e.movementY)\<close> of the browser's event. The casts
  \<^verbatim>\<open>currentObject.current as fabric.Rect\<close> check nothing: the properties are set on
  whatever object the ref holds.
\<close>

definition handleMouseMove ::
  "ToolType \<Rightarrow> real \<times> real \<Rightarrow> real \<times> real \<Rightarrow> drawing \<Rightarrow> drawing" where
  "handleMouseMove currentTool pointer movement s =
     (case (fabricCanvas s, currentObject s) of
        (Some cv, Some a) \<Rightarrow>
          if \<not> isDrawing s then s
          else
            let obj = store s a in
            (case currentTool of
               Trectangle \<Rightarrow>
                 s\<lparr>store := (store s)(a := obj
                      \<lparr>width := max 1 \<bar>fst pointer - left obj\<bar>,
                       height := max 1 \<bar>snd pointer - top' obj\<bar>\<rparr>)\<rparr>
             | Tellipse \<Rightarrow>
                 s\<lparr>store := (store s)(a :=
                      set_radii (max 1 \<bar>fst pointer - left obj\<bar>)
                        (max 1 \<bar>snd pointer - top' obj\<bar>) obj)\<rparr>
             | Tline \<Rightarrow>
                 s\<lparr>store := (store s)(a := obj\<lparr>x2 := fst pointer, y2 := snd pointer\<rparr>)\<rparr>
             | Tpolygon \<Rightarrow>
                 (case points obj of
                    Some (p0 # p1 # ps) \<Rightarrow>
                      s\<lparr>store := (store s)(a := obj
                           \<lparr>points := Some [p0, (fst pointer, snd p0), (fst pointer, snd pointer),
                                             (fst p0, snd pointer)]\<rparr>)\<rparr>
                  | _ \<Rightarrow> s)
             | Tpan \<Rightarrow>
                 (if fst movement \<noteq> 0 \<or> snd movement \<noteq> 0
                  then s\<lparr>viewportPan := (fst (viewportPan s) + fst movement,
                                           snd (viewportPan s) + snd movement)\<rparr>
                  else s)
             | _ \<Rightarrow> s)
      | _ \<Rightarrow> s)"

text \<open>
  \<^verbatim>\<open>handleMouseUp\<close>; \<open>updates\<close> counts the calls of \<^verbatim>\<open>onCanvasUpdated()\<close>.
\<close>

definition handleMouseUp :: "drawing \<Rightarrow> drawing" where
  "handleMouseUp s =
     (case fabricCanvas s of
        None \<Rightarrow> s
      | Some cv \<Rightarrow>
          let s1 = s\<lparr>isDrawing := False\<rparr>;
              s2 = (case currentObject s1 of
                      None \<Rightarrow> s1
                    | Some a \<Rightarrow>
                        (let s' = (if a \<notin> set cv then s1\<lparr>fabricCanvas := Some (cv @ [a])\<rparr> else s1)
                         in s'\<lparr>updates := updates s' + 1\<rparr>))
          in s2\<lparr>currentObject := None\<rparr>)"

text \<open>A canvas with nothing on it, and a drag: the pointer moves through \<open>ps\<close>.\<close>

definition emptyDrawing :: "(nat \<Rightarrow> fabric_object) \<Rightarrow> drawing" where
  "emptyDrawing st =
     \<lparr>fabricCanvas = Some [], store = st, nextRef = 0, isDrawing = False,
      currentObject = None, activeObject = None, viewportPan = (0, 0), updates = 0\<rparr>"

definition moves :: "ToolType \<Rightarrow> (real \<times> real) list \<Rightarrow> drawing \<Rightarrow> drawing" where
  "moves currentTool ps s = fold (\<lambda>p s'. handleMouseMove currentTool p (0, 0) s') ps s"

section \<open>The layer handlers (App.tsx)\<close>

text \<open>
  The drawables of a layer are values of a type \<open>'o\<close> (their style, which another
  listener of \<^verbatim>\<open>object:added\<close> completes, is not looked at); \<open>isGridLine\<close> is the test
  \<^verbatim>\<open>(obj as any).data?.isGridLine\<close>. The state \<^verbatim>\<open>canvas\<close> of the component is the
  argument of \<^verbatim>\<open>useHistory(canvas)\<close>, so the canvas of the editor is the field
  \<open>canvasArg\<close> of the hook's state, with a list of drawables as content. The hook listens
  to the canvas: \<^verbatim>\<open>canvas.remove(obj)\<close> and \<^verbatim>\<open>canvas.add(obj)\<close> change the content
  and fire \<^verbatim>\<open>object:removed\<close> and \<^verbatim>\<open>object:added\<close> to
  \<^verbatim>\<open>handleHistoryEvent\<close>. \<open>clock k\<close> is the value of \<^verbatim>\<open>Date.now()\<close> at the
  \<open>k\<close>-th event of a handler.
\<close>

record 'o Layer =
  layerId :: string
  layerName :: string
  visible :: bool
  locked :: bool
  objects :: "'o list"

datatype severity = Success | Error | Info

record notification =
  isOpen :: bool
  message :: string
  severity :: severity

record 'o app =
  layers :: "'o Layer list"
  currentLayerId :: "string option"
  notification :: notification
  hist :: "'o list useHistory"

definition canvas_remove ::
  "'o list fabric \<Rightarrow> nat \<Rightarrow> 'o \<Rightarrow> 'o list useHistory \<Rightarrow> 'o list useHistory" where
  "canvas_remove fab now obj h =
     handleHistoryEvent fab now (h\<lparr>canvasArg := map_option (remove1 obj) (canvasArg h)\<rparr>)"

definition canvas_add ::
  "'o list fabric \<Rightarrow> nat \<Rightarrow> 'o \<Rightarrow> 'o list useHistory \<Rightarrow> 'o list useHistory" where
  "canvas_add fab now obj h =
     handleHistoryEvent fab now (h\<lparr>canvasArg := map_option (\<lambda>c. c @ [obj]) (canvasArg h)\<rparr>)"

text \<open>
  \<^verbatim>\<open>canvas.getObjects().forEach(obj => { if (!isGridLine) canvas.remove(obj) })\<close>, over
  the copy \<open>objs\<close> that \<^verbatim>\<open>getObjects()\<close> returns; the result has the number of events
  fired so far.
\<close>

fun removeNonGrid ::
  "'o list fabric \<Rightarrow> ('o \<Rightarrow> bool) \<Rightarrow> (nat \<Rightarrow> nat) \<Rightarrow> 'o list \<Rightarrow> nat \<times> 'o list useHistory
     \<Rightarrow> nat \<times> 'o list useHistory" where
  "removeNonGrid fab isGridLine clock [] (k, h) = (k, h)"
| "removeNonGrid fab isGridLine clock (obj # objs) (k, h) =
     (if \<not> isGridLine obj
      then removeNonGrid fab isGridLine clock objs (k + 1, canvas_remove fab (clock k) obj h)
      else removeNonGrid fab isGridLine clock objs (k, h))"

text \<open>\<^verbatim>\<open>layer.objects.forEach(obj => { canvas.add(obj) })\<close>\<close>

fun addAll ::
  "'o list fabric \<Rightarrow> (nat \<Rightarrow> nat) \<Rightarrow> 'o list \<Rightarrow> nat \<times> 'o list useHistory
     \<Rightarrow> nat \<times> 'o list useHistory" where
  "addAll fab clock [] (k, h) = (k, h)"
| "addAll fab clock (obj # objs) (k, h) =
     addAll fab clock objs (k + 1, canvas_add fab (clock k) obj h)"

text \<open>
  \<^verbatim>\<open>handleLayerDelete(id)\<close>. The first component of the result is the exception that
  leaves the handler, if any: \<^verbatim>\<open>updatedLayers[0]\<close> is \<^verbatim>\<open>undefined\<close> when no layer
  remains, and reading its \<^verbatim>\<open>id\<close> throws, after \<^verbatim>\<open>setLayers\<close>.
\<close>

definition handleLayerDelete ::
  "'o list fabric \<Rightarrow> ('o \<Rightarrow> bool) \<Rightarrow> (nat \<Rightarrow> nat) \<Rightarrow> string \<Rightarrow> 'o app
     \<Rightarrow> js_error option \<times> 'o app" where
  "handleLayerDelete fab isGridLine clock i s =
     (if length (layers s) \<le> 1
      then (None, s\<lparr>notification :=
              \<lparr>isOpen = True, message = ''Cannot delete the last layer'', severity = Error\<rparr>\<rparr>)
      else
        let updatedLayers = filter (\<lambda>layer. layerId layer \<noteq> i) (layers s);
            s1 = s\<lparr>layers := updatedLayers\<rparr>
        in if Some i = currentLayerId s1
           then (case updatedLayers of
                   [] \<Rightarrow> (Some TypeError, s1)
                 | newCurrentLayer # _ \<Rightarrow>
                     (let s2 = s1\<lparr>currentLayerId := Some (layerId newCurrentLayer)\<rparr>
                      in case canvasArg (hist s2) of
                           None \<Rightarrow> (None, s2)
                         | Some objs \<Rightarrow>
                             (let r = removeNonGrid fab isGridLine clock objs (0, hist s2);
                                  a = addAll fab clock (objects newCurrentLayer) r
                              in (None, s2\<lparr>hist := snd a\<rparr>))))
           else (None, s1))"

section \<open>The gradient editor (GradientEditor, in components/properties/FillEditor.tsx)\<close>

record GradientStop =
  offset :: real
  color :: string

text \<open>
  The loop of \<^verbatim>\<open>handleAddStop\<close> over the offsets: the middle of the first gap wider
  than 0.2, and 0.5 when there is none.
\<close>

fun newOffset :: "real list \<Rightarrow> real" where
  "newOffset (a # b # rest) =
     (if b - a > 0.2 then a + (b - a) / 2 else newOffset (b # rest))"
| "newOffset _ = 0.5"

text \<open>
  \<^verbatim>\<open>newStops.sort((a, b) => a.offset - b.offset)\<close>: the sort of JavaScript is stable,
  as the insertion sort \<open>sort_key\<close> is.
\<close>

definition handleAddStop :: "GradientStop list \<Rightarrow> GradientStop list" where
  "handleAddStop stops =
     (if length stops \<ge> 10 then stops
      else sort_key offset (stops @ [\<lparr>offset = newOffset (map offset stops), color = ''#888888''\<rparr>]))"

text \<open>
  \<^verbatim>\<open>newStops.splice(index, 1)\<close>: a negative index counts from the end, and nothing is
  removed past the end.
\<close>

definition js_splice1 :: "int \<Rightarrow> 'a list \<Rightarrow> 'a list" where
  "js_splice1 i xs =
     (let n = int (length xs);
          start = (if i < 0 then max (n + i) 0 else min i n)
      in take (nat start) xs @ drop (nat start + 1) xs)"

definition handleRemoveStop :: "int \<Rightarrow> GradientStop list \<Rightarrow> GradientStop list" where
  "handleRemoveStop index stops =
     (if length stops \<le> 2 then stops else js_splice1 index stops)"

text \<open>
  \<^verbatim>\<open>newStops[index] = { ...newStops[index], offset: ... }\<close>. Inside the array this
  replaces the offset of a stop. At a negative index it sets a property of the array
  object that is no element, and the stops are only sorted. From the length on it would
  extend the array by a stop that has no colour, after \<open>index - length\<close> holes: that is
  no list of stops any more, and the model returns the clamped offset and the number of
  holes.
\<close>

datatype past_the_end = ColourlessStop real nat

definition handleOffsetChange ::
  "int \<Rightarrow> real \<Rightarrow> GradientStop list \<Rightarrow> past_the_end + GradientStop list" where
  "handleOffsetChange index off stops =
     (let v = min 1 (max 0 off) in
      if index < 0 then Inr (sort_key offset stops)
      else if index < int (length stops)
      then Inr (sort_key offset (stops[nat index := (stops ! nat index)\<lparr>offset := v\<rparr>]))
      else Inl (ColourlessStop v (nat index - length stops)))"

definition stops_ok :: "GradientStop list \<Rightarrow> bool" where
  "stops_ok stops = (sorted (map offset stops) \<and> 2 \<le> length stops \<and> length stops \<le> 10)"

section \<open>Gradient coordinates (utils/fillStyles in unnamed/part_005, GradientEditor.handleApply)\<close>

datatype GradientType = Linear | Radial

record GradientCoords =
  gx1 :: "real option"
  gy1 :: "real option"
  gx2 :: "real option"
  gy2 :: "real option"
  gr1 :: "real option"
  gr2 :: "real option"

record GradientOptions =
  gradientType :: GradientType
  gradientStops :: "GradientStop list"
  coords :: "GradientCoords option"

record Gradient =
  gradType :: GradientType
  gradCoords :: GradientCoords
  colorStops :: "GradientStop list"

text \<open>
  \<^verbatim>\<open>Math.round(x)\<close> is \<open>\<lfloor>x + 1/2\<rfloor>\<close>, which is \<open>round x\<close>. The drawable passed to
  \<^verbatim>\<open>createLinearGradient\<close> is not used by it.
\<close>

definition createLinearGradient :: "'o \<Rightarrow> string \<Rightarrow> string \<Rightarrow> real \<Rightarrow> Gradient" where
  "createLinearGradient object color1 color2 angle =
     (let angleRad = angle * pi / 180;
          x1 = real_of_int (round (50 + sin (angleRad + pi) * 50));
          y1 = real_of_int (round (50 + cos (angleRad + pi) * 50));
          x2 = real_of_int (round (50 + sin angleRad * 50));
          y2 = real_of_int (round (50 + cos angleRad * 50))
      in \<lparr>gradType = Linear,
          gradCoords = \<lparr>gx1 = Some x1, gy1 = Some y1, gx2 = Some x2, gy2 = Some y2,
                        gr1 = None, gr2 = None\<rparr>,
          colorStops = [\<lparr>offset = 0, color = color1\<rparr>, \<lparr>offset = 1, color = color2\<rparr>]\<rparr>)"

text \<open>
  \<^verbatim>\<open>handleApply\<close> of the editor, on its state: the value passed to
  \<^verbatim>\<open>onApply\<close>.
\<close>

definition handleApply ::
  "GradientType \<Rightarrow> GradientStop list \<Rightarrow> real \<Rightarrow> real \<Rightarrow> GradientOptions" where
  "handleApply gtype stops angle radius =
     (let gradientOptions = \<lparr>gradientType = gtype, gradientStops = stops, coords = None\<rparr> in
      if gtype = Linear then
        let angleRad = angle * pi / 180;
            x1 = real_of_int (round (50 + sin (angleRad + pi) * 50));
            y1 = real_of_int (round (50 + cos (angleRad + pi) * 50));
            x2 = real_of_int (round (50 + sin angleRad * 50));
            y2 = real_of_int (round (50 + cos angleRad * 50))
        in gradientOptions\<lparr>coords := Some \<lparr>gx1 = Some x1, gy1 = Some y1, gx2 = Some x2,
             gy2 = Some y2, gr1 = None, gr2 = None\<rparr>\<rparr>
      else gradientOptions\<lparr>coords := Some \<lparr>gx1 = Some 50, gy1 = Some 50, gx2 = Some 50,
             gy2 = Some 50, gr1 = Some 0, gr2 = Some radius\<rparr>\<rparr>)"

text \<open>
  The formula as the specification has it, to compare the code with: the point
  \<open>x = 50 + sin \<theta> \<sqdot> 50\<close>, \<open>y = 50 + cos \<theta> \<sqdot> 50\<close> on the box from 0 to 100, rounded,
  at an angle \<open>\<theta>\<close> in degrees.
\<close>

definition specEndPoint :: "real \<Rightarrow> real \<times> real" where
  "specEndPoint theta =
     (real_of_int (round (50 + sin (theta * pi / 180) * 50)),
      real_of_int (round (50 + cos (theta * pi / 180) * 50)))"

section \<open>Export (first half of utils/fileOperations.ts)\<close>

text \<open>
  What an export can do to the world: show an alert, hand a file to
  \<^verbatim>\<open>saveAs\<close> (its name, its type, its text), write to the console; and the canvas
  it is given. A result \<open>Inl\<close> would be an exception that leaves the function; none of
  its branches throws.
\<close>

record 'c world =
  canvasContent :: 'c
  alerts :: "string list"
  savedFiles :: "(string \<times> string \<times> string) list"
  consoleErrors :: "string list"

definition exportToSVG :: "'c fabric \<Rightarrow> string \<Rightarrow> 'c world \<Rightarrow> js_error + 'c world" where
  "exportToSVG fab filename w =
     Inr (w\<lparr>savedFiles := savedFiles w
            @ [(filename @ ''.svg'', ''image/svg+xml'', toSVG fab (canvasContent w))]\<rparr>)"

definition exportToJSON :: "'c fabric \<Rightarrow> string \<Rightarrow> 'c world \<Rightarrow> js_error + 'c world" where
  "exportToJSON fab filename w =
     Inr (w\<lparr>savedFiles := savedFiles w
            @ [(filename @ ''.json'', ''application/json'', toJSON fab (canvasContent w))]\<rparr>)"

definition exportToPDF :: "'c fabric \<Rightarrow> string \<Rightarrow> 'c world \<Rightarrow> js_error + 'c world" where
  "exportToPDF fab filename w =
     Inr (w\<lparr>alerts := alerts w @ [''PDF export coming soon. For now, try SVG format.'']\<rparr>)"

definition exportToEPS :: "'c fabric \<Rightarrow> string \<Rightarrow> 'c world \<Rightarrow> js_error + 'c world" where
  "exportToEPS fab filename w =
     Inr (w\<lparr>alerts := alerts w @ [''EPS export coming soon. For now, try SVG format.'']\<rparr>)"

definition exportToAI :: "'c fabric \<Rightarrow> string \<Rightarrow> 'c world \<Rightarrow> js_error + 'c world" where
  "exportToAI fab filename w =
     Inr (w\<lparr>alerts := alerts w @ [''AI export coming soon. For now, try SVG format.'']\<rparr>)"

text \<open>The \<^verbatim>\<open>switch\<close> on the format, a string at run time.\<close>

definition exportToFormat ::
  "'c fabric \<Rightarrow> string \<Rightarrow> string \<Rightarrow> 'c world \<Rightarrow> js_error + 'c world" where
  "exportToFormat fab format filename w =
     (if format = ''svg'' then exportToSVG fab filename w
      else if format = ''pdf'' then exportToPDF fab filename w
      else if format = ''eps'' then exportToEPS fab filename w
      else if format = ''ai'' then exportToAI fab filename w
      else if format = ''json'' then exportToJSON fab filename w
      else Inr (w\<lparr>consoleErrors := consoleErrors w @ [''Unsupported format: '' @ format]\<rparr>))"

section \<open>Notions used in the statements\<close>

text \<open>The snapshot that a capture of content \<open>c\<close> at time \<open>t\<close> stores.\<close>

definition snapshotOf :: "'c fabric \<Rightarrow> 'c \<times> nat \<Rightarrow> HistoryState" where
  "snapshotOf fab m = \<lparr>canvasState = toJSON fab (fst m), timestamp = snd m\<rparr>"

definition entryOf :: "'c fabric \<Rightarrow> 'c \<times> nat \<Rightarrow> HistoryEntry" where
  "entryOf fab m = \<lparr>json = toJSON fab (fst m), entryTimestamp = snd m\<rparr>"

text \<open>
  A library in which a load is complete when the call returns: the canvas then has the
  content that was serialised. A library whose load is still pending at the return does
  not have this property.
\<close>

definition completeAtReturn :: "'c fabric \<Rightarrow> bool" where
  "completeAtReturn fab = (\<forall>c c'. loadFromJSON fab (toJSON fab c) c' = c)"

text \<open>The invariant of the history: at most 50 snapshots, the cursor inside, no guard held.\<close>

definition hm_inv :: "'c HistoryManager \<Rightarrow> bool" where
  "hm_inv s =
     (length (history s) \<le> MAX_HISTORY_LENGTH \<and> - 1 \<le> currentStateIndex s
      \<and> currentStateIndex s \<le> int (length (history s)) - 1 \<and> \<not> isProcessingAction s)"

definition hook_inv :: "'c useHistory \<Rightarrow> bool" where
  "hook_inv s =
     (length (historyRef s) \<le> MAX_HISTORY_LENGTH \<and> - 1 \<le> currentIndexRef s
      \<and> currentIndexRef s \<le> int (length (historyRef s)) - 1 \<and> \<not> isProcessingHistoryRef s
      \<and> canUndoState s = (currentIndexRef s > 0)
      \<and> canRedoState s = (currentIndexRef s < int (length (historyRef s)) - 1))"

text \<open>
  A canvas for concrete runs: its content is a text, one letter for each object, which
  is its own serialisation, and the empty text is the empty canvas; and a restore during
  which it fires no events.
\<close>

definition textCanvas :: "string fabric" where
  "textCanvas =
     \<lparr>toJSON = (\<lambda>c. c), toSVG = (\<lambda>c. c), clear = (\<lambda>c. []), loadFromJSON = (\<lambda>j c. j)\<rparr>"

definition noEvents :: "string replay" where
  "noEvents = \<lparr>clearEvents = [], loadEvents = []\<rparr>"

text \<open>
  The same canvas with a load that is pending when the call returns. On it, a history
  after two drawings (of \<^verbatim>\<open>a\<close>, then of \<^verbatim>\<open>b\<close>), and the events of a
  \<^verbatim>\<open>canvas.clear()\<close> that removes the two objects. Then further concrete histories.
\<close>

definition pendingCanvas :: "string fabric" where
  "pendingCanvas =
     \<lparr>toJSON = (\<lambda>c. c), toSVG = (\<lambda>c. c), clear = (\<lambda>c. []), loadFromJSON = (\<lambda>j c. c)\<rparr>"

definition twoDrawn :: "string HistoryManager" where
  "twoDrawn =
     commits pendingCanvas [(''a'', 1), (''ab'', 2)] (newHistoryManager pendingCanvas [] 0)"

definition twoDrawnHook :: "string useHistory" where
  "twoDrawnHook =
     hook_commits pendingCanvas [(''a'', 1), (''ab'', 2)] (mountHistory pendingCanvas [] 0)"

definition clearing :: "string replay" where
  "clearing = \<lparr>clearEvents = [(''b'', 3), ([], 3)], loadEvents = []\<rparr>"

definition fullHistory :: "string history_op list" where
  "fullHistory = map (\<lambda>n. SaveState n) [0..<50]"

definition fullHookHistory :: "string hook_op list" where
  "fullHookHistory = map (\<lambda>n. HSaveState n) [0..<50]"

definition threeSnapshots :: "string history_op list" where
  "threeSnapshots = [SaveState 0, Mutate ''a'', SaveState 1, Mutate ''ab'', SaveState 2]"

definition threeEntries :: "string hook_op list" where
  "threeEntries = [HSaveState 0, HMutate ''a'', HSaveState 1, HMutate ''ab'', HSaveState 2]"

text \<open>What a drag keeps: the canvas, the ref, the flag, and the anchor of the object.\<close>

definition dragging :: "nat list \<Rightarrow> nat \<Rightarrow> real \<times> real \<Rightarrow> drawing \<Rightarrow> bool" where
  "dragging cv a q s =
     (fabricCanvas s = Some cv \<and> currentObject s = Some a \<and> isDrawing s
      \<and> left (store s a) = fst q \<and> top' (store s a) = snd q)"

text \<open>The notification of a refused deletion.\<close>

definition lastLayerNotice :: notification where
  "lastLayerNotice =
     \<lparr>isOpen = True, message = ''Cannot delete the last layer'', severity = Error\<rparr>"

text \<open>
  Concrete inputs: an object and a canvas with nothing on it; a canvas of numbered
  drawables, those below 10 being grid lines, with one or two layers; lists of two,
  three and ten stops; a world in which nothing was exported yet.
\<close>

definition blankObject :: fabric_object where
  "blankObject =
     \<lparr>shape = Rect, left = 0, top' = 0, width = 0, height = 0, rx = 0, ry = 0,
      x1 = 0, y1 = 0, x2 = 0, y2 = 0, points = None\<rparr>"

definition blankDrawing :: drawing where
  "blankDrawing = emptyDrawing (\<lambda>a. blankObject)"

definition listCanvas :: "nat list fabric" where
  "listCanvas =
     \<lparr>toJSON = map (\<lambda>n. if n < 10 then CHR ''g'' else CHR ''o''),
      toSVG = map (\<lambda>n. if n < 10 then CHR ''g'' else CHR ''o''),
      clear = (\<lambda>c. []), loadFromJSON = (\<lambda>j c. c)\<rparr>"

definition layerA :: "nat Layer" where
  "layerA = \<lparr>layerId = ''A'', layerName = ''Layer 1'', visible = True, locked = False,
             objects = [11]\<rparr>"

definition layerB :: "nat Layer" where
  "layerB = \<lparr>layerId = ''B'', layerName = ''Layer 2'', visible = True, locked = False,
             objects = [12, 13]\<rparr>"

definition quiet :: notification where
  "quiet = \<lparr>isOpen = False, message = [], severity = Success\<rparr>"

definition oneLayer :: "nat app" where
  "oneLayer = \<lparr>layers = [layerA], currentLayerId = Some ''A'', notification = quiet,
               hist = mountHistory listCanvas [1, 2, 11] 0\<rparr>"

definition twoLayers :: "nat app" where
  "twoLayers = \<lparr>layers = [layerA, layerB], currentLayerId = Some ''A'', notification = quiet,
                hist = mountHistory listCanvas [1, 2, 11] 0\<rparr>"

definition twoStops :: "GradientStop list" where
  "twoStops = [\<lparr>offset = 0, color = ''#ffffff''\<rparr>, \<lparr>offset = 1, color = ''#000000''\<rparr>]"

definition threeStops :: "GradientStop list" where
  "threeStops = [\<lparr>offset = 0, color = ''#ffffff''\<rparr>, \<lparr>offset = 0.5, color = ''#888888''\<rparr>,
                 \<lparr>offset = 1, color = ''#000000''\<rparr>]"

definition tenStops :: "GradientStop list" where
  "tenStops = map (\<lambda>x. \<lparr>offset = x, color = ''#888888''\<rparr>)
     [0, 0.1, 0.2, 0.3, 0.4, 0.5, 0.6, 0.7, 0.8, 0.9]"

definition blankWorld :: "string world" where
  "blankWorld = \<lparr>canvasContent = ''rect'', alerts = [], savedFiles = [], consoleErrors = []\<rparr>"

section \<open>Properties\<close>

subsection \<open>The history: what the guard and the cursor do\<close>

lemma saveState_guarded: "isProcessingAction s \<Longrightarrow> saveState fab now s = s"
  by (simp add: saveState_def)

lemma fireEvents_guarded:
  "isProcessingAction s \<Longrightarrow>
     fireEvents fab evs s = (if evs = [] then s else s\<lparr>canvas := fst (last evs)\<rparr>)"
proof (induction evs arbitrary: s)
  case Nil
  then show ?case by (simp add: fireEvents_def)
next
  case (Cons e evs)
  obtain c now where e: "e = (c, now)" by (cases e)
  have g: "isProcessingAction (s\<lparr>canvas := c\<rparr>)" using Cons.prems by simp
  have "fireEvents fab (e # evs) s = fireEvents fab evs (s\<lparr>canvas := c\<rparr>)"
    using g by (simp add: fireEvents_def e saveState_guarded)
  also have "\<dots> = (if evs = [] then s\<lparr>canvas := c\<rparr> else s\<lparr>canvas := c, canvas := fst (last evs)\<rparr>)"
    using Cons.IH [OF g] by simp
  finally show ?case by (simp add: e)
qed

lemma loadState_guarded:
  assumes "isProcessingAction s"
  shows "\<exists>c. loadState fab r st s =
     (case st of None \<Rightarrow> (Some TypeError, s\<lparr>canvas := c\<rparr>)
      | Some state \<Rightarrow> (None, s\<lparr>canvas := loadFromJSON fab (canvasState state) c\<rparr>))"
  using assms by (auto simp: loadState_def Let_def fireEvents_guarded split: option.splits)

lemma undo_cases:
  "\<exists>c. undo fab r s =
     (if currentStateIndex s \<le> 0 then (Inr False, s)
      else case js_index (history s) (currentStateIndex s - 1) of
             None \<Rightarrow> (Inl TypeError,
                s\<lparr>isProcessingAction := True, currentStateIndex := currentStateIndex s - 1, canvas := c\<rparr>)
           | Some state \<Rightarrow> (Inr True,
                s\<lparr>isProcessingAction := False, currentStateIndex := currentStateIndex s - 1,
                  canvas := loadFromJSON fab (canvasState state) c\<rparr>))"
proof (cases "currentStateIndex s \<le> 0")
  case True
  then show ?thesis by (simp add: undo_def)
next
  case False
  let ?s2 = "s\<lparr>isProcessingAction := True, currentStateIndex := currentStateIndex s - 1\<rparr>"
  let ?st = "js_index (history s) (currentStateIndex s - 1)"
  have "isProcessingAction ?s2" by simp
  from loadState_guarded [OF this, of fab r ?st]
  obtain c where c: "loadState fab r ?st ?s2 =
     (case ?st of None \<Rightarrow> (Some TypeError, ?s2\<lparr>canvas := c\<rparr>)
      | Some state \<Rightarrow> (None, ?s2\<lparr>canvas := loadFromJSON fab (canvasState state) c\<rparr>))"
    by blast
  show ?thesis
    using False c by (intro exI [of _ c]) (simp add: undo_def Let_def split: option.splits)
qed

lemma redo_cases:
  "\<exists>c. redo fab r s =
     (if currentStateIndex s \<ge> int (length (history s)) - 1 then (Inr False, s)
      else case js_index (history s) (currentStateIndex s + 1) of
             None \<Rightarrow> (Inl TypeError,
                s\<lparr>isProcessingAction := True, currentStateIndex := currentStateIndex s + 1, canvas := c\<rparr>)
           | Some state \<Rightarrow> (Inr True,
                s\<lparr>isProcessingAction := False, currentStateIndex := currentStateIndex s + 1,
                  canvas := loadFromJSON fab (canvasState state) c\<rparr>))"
proof (cases "currentStateIndex s \<ge> int (length (history s)) - 1")
  case True
  then show ?thesis by (simp add: redo_def)
next
  case False
  let ?s2 = "s\<lparr>isProcessingAction := True, currentStateIndex := currentStateIndex s + 1\<rparr>"
  let ?st = "js_index (history s) (currentStateIndex s + 1)"
  have "isProcessingAction ?s2" by simp
  from loadState_guarded [OF this, of fab r ?st]
  obtain c where c: "loadState fab r ?st ?s2 =
     (case ?st of None \<Rightarrow> (Some TypeError, ?s2\<lparr>canvas := c\<rparr>)
      | Some state \<Rightarrow> (None, ?s2\<lparr>canvas := loadFromJSON fab (canvasState state) c\<rparr>))"
    by blast
  show ?thesis
    using False c by (intro exI [of _ c]) (simp add: redo_def Let_def split: option.splits)
qed

lemma hm_inv_saveState: "hm_inv s \<Longrightarrow> hm_inv (saveState fab now s)"
  by (auto simp: hm_inv_def saveState_def Let_def js_slice0_def MAX_HISTORY_LENGTH_def)

lemma hm_inv_undo: "hm_inv s \<Longrightarrow> hm_inv (snd (undo fab r s))"
  using undo_cases [of fab r s]
  by (auto simp: hm_inv_def js_index_def split: if_splits option.splits)

lemma hm_inv_redo: "hm_inv s \<Longrightarrow> hm_inv (snd (redo fab r s))"
  using redo_cases [of fab r s]
  by (auto simp: hm_inv_def js_index_def split: if_splits option.splits)

lemma hm_inv_clearHistory: "hm_inv s \<Longrightarrow> hm_inv (clearHistory fab now s)"
  by (auto simp: hm_inv_def clearHistory_def saveState_def Let_def js_slice0_def MAX_HISTORY_LENGTH_def)

lemma hm_inv_step: "hm_inv s \<Longrightarrow> hm_inv (step fab x s)"
  by (cases x) (simp_all add: hm_inv_saveState hm_inv_undo hm_inv_redo hm_inv_clearHistory, simp add: hm_inv_def)

lemma hm_inv_run: "hm_inv s \<Longrightarrow> hm_inv (run fab ops s)"
  unfolding run_def by (induction ops arbitrary: s) (simp_all add: hm_inv_step)

lemma hm_inv_initialFields: "hm_inv (initialFields c)"
  by (simp add: hm_inv_def initialFields_def MAX_HISTORY_LENGTH_def)

lemma saveState_append:
  assumes "\<not> isProcessingAction s" "currentStateIndex s = int (length (history s)) - 1"
    "length (history s) < MAX_HISTORY_LENGTH"
  shows "saveState fab now s =
    s\<lparr>history := history s @ [snapshotOf fab (canvas s, now)],
      currentStateIndex := int (length (history s))\<rparr>"
  using assms by (simp add: saveState_def Let_def snapshotOf_def)

lemma commits_append:
  assumes "\<not> isProcessingAction s" "currentStateIndex s = int (length (history s)) - 1"
    "length (history s) + length ms \<le> MAX_HISTORY_LENGTH"
  shows "commits fab ms s =
    s\<lparr>history := history s @ map (snapshotOf fab) ms,
      currentStateIndex := int (length (history s) + length ms) - 1,
      canvas := (if ms = [] then canvas s else fst (last ms))\<rparr>"
  using assms
proof (induction ms arbitrary: s)
  case Nil
  then show ?case by (simp add: commits_def)
next
  case (Cons m ms)
  let ?s1 = "commit fab m s"
  have s1: "?s1 = s\<lparr>history := history s @ [snapshotOf fab m],
      currentStateIndex := int (length (history s)), canvas := fst m\<rparr>"
    using Cons.prems by (simp add: commit_def saveState_append snapshotOf_def)
  have "commits fab (m # ms) s = commits fab ms ?s1" by (simp add: commits_def)
  also have "\<dots> = ?s1\<lparr>history := history ?s1 @ map (snapshotOf fab) ms,
      currentStateIndex := int (length (history ?s1) + length ms) - 1,
      canvas := (if ms = [] then canvas ?s1 else fst (last ms))\<rparr>"
    using Cons.prems by (intro Cons.IH) (simp_all add: s1)
  finally show ?case by (simp add: s1)
qed

lemma newHistoryManager_eq:
  "newHistoryManager fab c now =
     \<lparr>history = [snapshotOf fab (c, now)], currentStateIndex = 0, canvas = c,
      isProcessingAction = False\<rparr>"
  by (simp add: newHistoryManager_def initialFields_def saveState_def Let_def snapshotOf_def
      MAX_HISTORY_LENGTH_def)

lemma undo_restores:
  assumes "completeAtReturn fab" "\<not> isProcessingAction s" "history s = map (snapshotOf fab) cs"
    "0 < currentStateIndex s" "currentStateIndex s \<le> int (length cs)"
  shows "undo fab r s =
    (Inr True, s\<lparr>currentStateIndex := currentStateIndex s - 1,
       canvas := fst (cs ! nat (currentStateIndex s - 1))\<rparr>)"
proof -
  have i: "js_index (history s) (currentStateIndex s - 1)
      = Some (snapshotOf fab (cs ! nat (currentStateIndex s - 1)))"
    using assms by (simp add: js_index_def)
  from undo_cases [of fab r s] obtain c where "undo fab r s =
      (Inr True, s\<lparr>isProcessingAction := False, currentStateIndex := currentStateIndex s - 1,
        canvas := loadFromJSON fab (canvasState (snapshotOf fab (cs ! nat (currentStateIndex s - 1)))) c\<rparr>)"
    using assms(4) i by auto
  then show ?thesis
    using assms(1,2) by (simp add: completeAtReturn_def snapshotOf_def)
qed

lemma undos_restore:
  assumes "completeAtReturn fab" "\<not> isProcessingAction s" "history s = map (snapshotOf fab) cs"
    "int (length rs) \<le> currentStateIndex s" "currentStateIndex s < int (length cs)"
  shows "undos fab rs s =
    s\<lparr>currentStateIndex := currentStateIndex s - int (length rs),
      canvas := (if rs = [] then canvas s
        else fst (cs ! nat (currentStateIndex s - int (length rs))))\<rparr>"
  using assms
proof (induction rs arbitrary: s)
  case Nil
  then show ?case by (simp add: undos_def)
next
  case (Cons r rs)
  let ?s1 = "s\<lparr>currentStateIndex := currentStateIndex s - 1,
       canvas := fst (cs ! nat (currentStateIndex s - 1))\<rparr>"
  have u: "undo fab r s = (Inr True, ?s1)"
    using Cons.prems by (intro undo_restores) simp_all
  have "undos fab (r # rs) s = undos fab rs ?s1"
    by (simp add: undos_def u)
  also have "\<dots> = ?s1\<lparr>currentStateIndex := currentStateIndex ?s1 - int (length rs),
      canvas := (if rs = [] then canvas ?s1
        else fst (cs ! nat (currentStateIndex ?s1 - int (length rs))))\<rparr>"
    using Cons.prems by (intro Cons.IH) simp_all
  finally show ?case by (simp add: algebra_simps)
qed

lemma undos_after_commits:
  assumes rt: "completeAtReturn fab" and n: "length ms < MAX_HISTORY_LENGTH"
    and rs: "length rs \<le> length ms"
  shows "undos fab rs (commits fab ms (newHistoryManager fab c0 t0)) =
    \<lparr>history = map (snapshotOf fab) ((c0, t0) # ms),
     currentStateIndex = int (length ms) - int (length rs),
     canvas = fst (((c0, t0) # ms) ! (length ms - length rs)),
     isProcessingAction = False\<rparr>"
proof -
  let ?s0 = "newHistoryManager fab c0 t0"
  let ?s1 = "commits fab ms ?s0"
  have s1: "?s1 = \<lparr>history = map (snapshotOf fab) ((c0, t0) # ms),
     currentStateIndex = int (length ms), canvas = (if ms = [] then c0 else fst (last ms)),
     isProcessingAction = False\<rparr>"
    using n by (subst commits_append) (simp_all add: newHistoryManager_eq)
  have l: "((c0, t0) # ms) ! length ms = (if ms = [] then (c0, t0) else last ms)"
    by (simp add: last_conv_nth nth_Cons')
  have "undos fab rs ?s1 = ?s1\<lparr>currentStateIndex := currentStateIndex ?s1 - int (length rs),
      canvas := (if rs = [] then canvas ?s1
        else fst (((c0, t0) # ms) ! nat (currentStateIndex ?s1 - int (length rs))))\<rparr>"
    using rt rs by (intro undos_restore) (simp_all add: s1)
  also have "\<dots> = \<lparr>history = map (snapshotOf fab) ((c0, t0) # ms),
     currentStateIndex = int (length ms) - int (length rs),
     canvas = fst (((c0, t0) # ms) ! (length ms - length rs)),
     isProcessingAction = False\<rparr>"
  proof (cases "rs = []")
    case True
    then show ?thesis by (simp add: s1 l del: nth_Cons_0 nth_Cons_Suc)
  next
    case False
    have "nat (int (length ms) - int (length rs)) = length ms - length rs"
      by simp
    then show ?thesis using False by (simp add: s1)
  qed
  finally show ?thesis .
qed

lemma useHistory_saveState_guarded:
  "isProcessingHistoryRef s \<Longrightarrow> useHistory_saveState fab now s = s"
  by (simp add: useHistory_saveState_def split: option.splits)

lemma handleHistoryEvent_guarded:
  "isProcessingHistoryRef s \<Longrightarrow> handleHistoryEvent fab now s = s"
  by (simp add: handleHistoryEvent_def)

lemma useHistory_fireEvents_guarded:
  "isProcessingHistoryRef s \<Longrightarrow>
     useHistory_fireEvents fab evs s =
       (if evs = [] then s else s\<lparr>canvasArg := Some (fst (last evs))\<rparr>)"
proof (induction evs arbitrary: s)
  case Nil
  then show ?case by (simp add: useHistory_fireEvents_def)
next
  case (Cons e evs)
  obtain c now where e: "e = (c, now)" by (cases e)
  have g: "isProcessingHistoryRef (s\<lparr>canvasArg := Some c\<rparr>)" using Cons.prems by simp
  have "useHistory_fireEvents fab (e # evs) s = useHistory_fireEvents fab evs (s\<lparr>canvasArg := Some c\<rparr>)"
    using g by (simp add: useHistory_fireEvents_def e handleHistoryEvent_guarded)
  also have "\<dots> = (if evs = [] then s\<lparr>canvasArg := Some c\<rparr>
      else s\<lparr>canvasArg := Some c, canvasArg := Some (fst (last evs))\<rparr>)"
    using Cons.IH [OF g] by simp
  finally show ?case by (simp add: e)
qed

lemma useHistory_undo_cases:
  "\<exists>c. useHistory_undo fab evs s =
     (if canvasArg s = None \<or> \<not> canUndoState s \<or> currentIndexRef s \<le> 0 then s
      else case js_index (historyRef s) (currentIndexRef s - 1) of
             None \<Rightarrow> s\<lparr>isProcessingHistoryRef := False, currentIndexRef := currentIndexRef s - 1\<rparr>
           | Some state \<Rightarrow>
               s\<lparr>isProcessingHistoryRef := False, currentIndexRef := currentIndexRef s - 1,
                 canvasArg := Some (loadFromJSON fab (json state) c),
                 canUndoState := (currentIndexRef s - 1 > 0),
                 canRedoState := (currentIndexRef s - 1 < int (length (historyRef s)) - 1)\<rparr>)"
proof (cases "canvasArg s = None \<or> \<not> canUndoState s \<or> currentIndexRef s \<le> 0")
  case True
  then show ?thesis by (simp add: useHistory_undo_def)
next
  case False
  then obtain c0 where c0: "canvasArg s = Some c0" by auto
  let ?c = "if evs = [] then c0 else fst (last evs)"
  show ?thesis
    using False c0
    by (intro exI [of _ ?c])
      (simp add: useHistory_undo_def Let_def useHistory_fireEvents_guarded split: option.splits)
qed

lemma useHistory_redo_cases:
  "\<exists>c. useHistory_redo fab evs s =
     (if canvasArg s = None \<or> \<not> canRedoState s
         \<or> currentIndexRef s \<ge> int (length (historyRef s)) - 1 then s
      else case js_index (historyRef s) (currentIndexRef s + 1) of
             None \<Rightarrow> s\<lparr>isProcessingHistoryRef := False, currentIndexRef := currentIndexRef s + 1\<rparr>
           | Some state \<Rightarrow>
               s\<lparr>isProcessingHistoryRef := False, currentIndexRef := currentIndexRef s + 1,
                 canvasArg := Some (loadFromJSON fab (json state) c),
                 canUndoState := (currentIndexRef s + 1 > 0),
                 canRedoState := (currentIndexRef s + 1 < int (length (historyRef s)) - 1)\<rparr>)"
proof (cases "canvasArg s = None \<or> \<not> canRedoState s
         \<or> currentIndexRef s \<ge> int (length (historyRef s)) - 1")
  case True
  then show ?thesis by (simp add: useHistory_redo_def)
next
  case False
  then obtain c0 where c0: "canvasArg s = Some c0" by auto
  let ?c = "if evs = [] then c0 else fst (last evs)"
  show ?thesis
    using False c0
    by (intro exI [of _ ?c])
      (simp add: useHistory_redo_def Let_def useHistory_fireEvents_guarded split: option.splits)
qed

lemma hook_inv_saveState: "hook_inv s \<Longrightarrow> hook_inv (useHistory_saveState fab now s)"
  by (auto simp: hook_inv_def useHistory_saveState_def Let_def js_slice0_def MAX_HISTORY_LENGTH_def
      split: option.splits)

lemma hook_inv_undo: "hook_inv s \<Longrightarrow> hook_inv (useHistory_undo fab evs s)"
  using useHistory_undo_cases [of fab evs s]
  by (auto simp: hook_inv_def js_index_def split: if_splits option.splits)

lemma hook_inv_redo: "hook_inv s \<Longrightarrow> hook_inv (useHistory_redo fab evs s)"
  using useHistory_redo_cases [of fab evs s]
  by (auto simp: hook_inv_def js_index_def split: if_splits option.splits)

lemma hook_inv_clearHistory: "hook_inv s \<Longrightarrow> hook_inv (useHistory_clearHistory fab now s)"
  by (auto simp: hook_inv_def useHistory_clearHistory_def useHistory_saveState_def Let_def
      js_slice0_def MAX_HISTORY_LENGTH_def split: option.splits)

lemma hook_inv_step: "hook_inv s \<Longrightarrow> hook_inv (hook_step fab x s)"
  by (cases x)
    (simp_all add: hook_inv_saveState hook_inv_undo hook_inv_redo hook_inv_clearHistory,
      simp add: hook_inv_def)

lemma hook_inv_run: "hook_inv s \<Longrightarrow> hook_inv (hook_run fab ops s)"
  unfolding hook_run_def by (induction ops arbitrary: s) (simp_all add: hook_inv_step)

lemma hook_inv_initialRefs: "hook_inv (initialRefs c)"
  by (simp add: hook_inv_def initialRefs_def MAX_HISTORY_LENGTH_def)

lemma canvasArg_step:
  assumes "canvasArg s \<noteq> None"
  shows "canvasArg (hook_step fab x s) \<noteq> None"
proof (cases x)
  case (HUndo evs)
  then show ?thesis using assms useHistory_undo_cases [of fab evs s]
    by (auto split: if_splits option.splits)
next
  case (HRedo evs)
  then show ?thesis using assms useHistory_redo_cases [of fab evs s]
    by (auto split: if_splits option.splits)
qed (use assms in \<open>auto simp: useHistory_saveState_def useHistory_clearHistory_def Let_def
      split: option.splits\<close>)

lemma canvasArg_run:
  "canvasArg s \<noteq> None \<Longrightarrow> canvasArg (hook_run fab ops s) \<noteq> None"
proof (induction ops arbitrary: s)
  case Nil
  then show ?case by (simp add: hook_run_def)
next
  case (Cons a ops)
  from Cons.prems have "canvasArg (hook_step fab a s) \<noteq> None"
    by (rule canvasArg_step)
  from Cons.IH [OF this] show ?case by (simp add: hook_run_def)
qed

lemma useHistory_saveState_append:
  assumes "\<not> isProcessingHistoryRef s" "currentIndexRef s = int (length (historyRef s)) - 1"
    "length (historyRef s) < MAX_HISTORY_LENGTH" "canvasArg s = Some c"
  shows "useHistory_saveState fab now s =
    s\<lparr>historyRef := historyRef s @ [entryOf fab (c, now)],
      currentIndexRef := int (length (historyRef s)),
      canUndoState := (length (historyRef s) > 0), canRedoState := False\<rparr>"
  using assms by (simp add: useHistory_saveState_def Let_def entryOf_def)

lemma hook_commits_append:
  assumes "\<not> isProcessingHistoryRef s" "currentIndexRef s = int (length (historyRef s)) - 1"
    "length (historyRef s) + length ms \<le> MAX_HISTORY_LENGTH" "canvasArg s = Some c"
    "canUndoState s = (currentIndexRef s > 0)" "\<not> canRedoState s"
  shows "hook_commits fab ms s =
    s\<lparr>historyRef := historyRef s @ map (entryOf fab) ms,
      currentIndexRef := int (length (historyRef s) + length ms) - 1,
      canUndoState := (int (length (historyRef s) + length ms) - 1 > 0),
      canvasArg := Some (if ms = [] then c else fst (last ms))\<rparr>"
  using assms
proof (induction ms arbitrary: s c)
  case Nil
  then show ?case by (simp add: hook_commits_def)
next
  case (Cons m ms)
  let ?s1 = "hook_commit fab m s"
  have s1: "?s1 = s\<lparr>historyRef := historyRef s @ [entryOf fab m],
      currentIndexRef := int (length (historyRef s)),
      canUndoState := (length (historyRef s) > 0), canRedoState := False,
      canvasArg := Some (fst m)\<rparr>"
    using Cons.prems
    by (simp add: hook_commit_def useHistory_saveState_append [where c = "fst m"] entryOf_def)
  have "hook_commits fab (m # ms) s = hook_commits fab ms ?s1" by (simp add: hook_commits_def)
  also have "\<dots> = ?s1\<lparr>historyRef := historyRef ?s1 @ map (entryOf fab) ms,
      currentIndexRef := int (length (historyRef ?s1) + length ms) - 1,
      canUndoState := (int (length (historyRef ?s1) + length ms) - 1 > 0),
      canvasArg := Some (if ms = [] then fst m else fst (last ms))\<rparr>"
    using Cons.prems by (intro Cons.IH) (simp_all add: s1)
  finally show ?case using Cons.prems by (simp add: s1)
qed

lemma mountHistory_eq:
  "mountHistory fab c now =
     \<lparr>historyRef = [entryOf fab (c, now)], currentIndexRef = 0, isProcessingHistoryRef = False,
      canUndoState = False, canRedoState = False, canvasArg = Some c\<rparr>"
  by (simp add: mountHistory_def initialRefs_def useHistory_saveState_def Let_def entryOf_def
      MAX_HISTORY_LENGTH_def)

lemma useHistory_undo_restores:
  assumes "completeAtReturn fab" "\<not> isProcessingHistoryRef s" "historyRef s = map (entryOf fab) cs"
    "0 < currentIndexRef s" "currentIndexRef s < int (length cs)" "canvasArg s \<noteq> None"
    "canUndoState s"
  shows "useHistory_undo fab evs s =
    s\<lparr>currentIndexRef := currentIndexRef s - 1,
      canvasArg := Some (fst (cs ! nat (currentIndexRef s - 1))),
      canUndoState := (currentIndexRef s - 1 > 0), canRedoState := True\<rparr>"
proof -
  have i: "js_index (historyRef s) (currentIndexRef s - 1)
      = Some (entryOf fab (cs ! nat (currentIndexRef s - 1)))"
    using assms by (simp add: js_index_def)
  from useHistory_undo_cases [of fab evs s] obtain c where "useHistory_undo fab evs s =
      s\<lparr>isProcessingHistoryRef := False, currentIndexRef := currentIndexRef s - 1,
        canvasArg := Some (loadFromJSON fab (json (entryOf fab (cs ! nat (currentIndexRef s - 1)))) c),
        canUndoState := (currentIndexRef s - 1 > 0),
        canRedoState := (currentIndexRef s - 1 < int (length (historyRef s)) - 1)\<rparr>"
    using assms(4,6,7) i by auto
  then show ?thesis
    using assms(1,2,3,5) by (simp add: completeAtReturn_def entryOf_def)
qed

lemma hook_undos_restore:
  assumes "completeAtReturn fab" "\<not> isProcessingHistoryRef s" "historyRef s = map (entryOf fab) cs"
    "int (length rs) \<le> currentIndexRef s" "currentIndexRef s < int (length cs)"
    "canvasArg s \<noteq> None" "canUndoState s = (currentIndexRef s > 0)"
  shows "hook_undos fab rs s =
    (if rs = [] then s
     else s\<lparr>currentIndexRef := currentIndexRef s - int (length rs),
      canvasArg := Some (fst (cs ! nat (currentIndexRef s - int (length rs)))),
      canUndoState := (currentIndexRef s - int (length rs) > 0), canRedoState := True\<rparr>)"
  using assms
proof (induction rs arbitrary: s)
  case Nil
  then show ?case by (simp add: hook_undos_def)
next
  case (Cons r rs)
  let ?s1 = "s\<lparr>currentIndexRef := currentIndexRef s - 1,
      canvasArg := Some (fst (cs ! nat (currentIndexRef s - 1))),
      canUndoState := (currentIndexRef s - 1 > 0), canRedoState := True\<rparr>"
  have u: "useHistory_undo fab r s = ?s1"
    using Cons.prems by (intro useHistory_undo_restores) simp_all
  have "hook_undos fab (r # rs) s = hook_undos fab rs ?s1"
    by (simp add: hook_undos_def u)
  also have "\<dots> = (if rs = [] then ?s1
     else ?s1\<lparr>currentIndexRef := currentIndexRef ?s1 - int (length rs),
      canvasArg := Some (fst (cs ! nat (currentIndexRef ?s1 - int (length rs)))),
      canUndoState := (currentIndexRef ?s1 - int (length rs) > 0), canRedoState := True\<rparr>)"
    using Cons.prems by (intro Cons.IH) simp_all
  finally show ?case by (simp add: algebra_simps)
qed

lemma hook_undos_after_commits:
  assumes rt: "completeAtReturn fab" and n: "length ms < MAX_HISTORY_LENGTH"
    and rs: "length rs \<le> length ms"
  shows "canvasArg (hook_undos fab rs (hook_commits fab ms (mountHistory fab c0 t0)))
           = Some (fst (((c0, t0) # ms) ! (length ms - length rs)))"
    and "canUndoState (hook_undos fab rs (hook_commits fab ms (mountHistory fab c0 t0)))
           = (length rs < length ms)"
    and "currentIndexRef (hook_undos fab rs (hook_commits fab ms (mountHistory fab c0 t0)))
           = int (length ms) - int (length rs)"
    and "historyRef (hook_undos fab rs (hook_commits fab ms (mountHistory fab c0 t0)))
           = map (entryOf fab) ((c0, t0) # ms)"
proof -
  let ?s0 = "mountHistory fab c0 t0"
  let ?s1 = "hook_commits fab ms ?s0"
  let ?s2 = "hook_undos fab rs ?s1"
  have s1: "?s1 = \<lparr>historyRef = map (entryOf fab) ((c0, t0) # ms),
     currentIndexRef = int (length ms), isProcessingHistoryRef = False,
     canUndoState = (length ms > 0), canRedoState = False,
     canvasArg = Some (if ms = [] then c0 else fst (last ms))\<rparr>"
    using n by (subst hook_commits_append [where c = c0]) (simp_all add: mountHistory_eq)
  have l: "((c0, t0) # ms) ! length ms = (if ms = [] then (c0, t0) else last ms)"
    by (simp add: last_conv_nth nth_Cons')
  have s2: "?s2 = (if rs = [] then ?s1
     else ?s1\<lparr>currentIndexRef := currentIndexRef ?s1 - int (length rs),
      canvasArg := Some (fst (((c0, t0) # ms) ! nat (currentIndexRef ?s1 - int (length rs)))),
      canUndoState := (currentIndexRef ?s1 - int (length rs) > 0), canRedoState := True\<rparr>)"
    using rt rs by (intro hook_undos_restore) (simp_all add: s1)
  have nat: "nat (int (length ms) - int (length rs)) = length ms - length rs"
    by simp
  show "canvasArg ?s2 = Some (fst (((c0, t0) # ms) ! (length ms - length rs)))"
  proof (cases "rs = []")
    case True
    then show ?thesis unfolding s2 by (simp add: s1 l del: nth_Cons_0 nth_Cons_Suc)
  next
    case False
    then show ?thesis unfolding s2 using nat by (simp add: s1)
  qed
  show "canUndoState ?s2 = (length rs < length ms)"
    unfolding s2 by (cases "rs = []") (simp_all add: s1)
  show "currentIndexRef ?s2 = int (length ms) - int (length rs)"
    unfolding s2 by (cases "rs = []") (simp_all add: s1)
  show "historyRef ?s2 = map (entryOf fab) ((c0, t0) # ms)"
    unfolding s2 by (cases "rs = []") (simp_all add: s1)
qed

lemma hm_inv_reachable: "hm_inv (run fab ops (initialFields c))"
  by (rule hm_inv_run) (rule hm_inv_initialFields)

lemma hook_inv_reachable: "hook_inv (hook_run fab ops (initialRefs c))"
  by (rule hook_inv_run) (rule hook_inv_initialRefs)

lemma canvasArg_reachable: "canvasArg (hook_run fab ops (initialRefs (Some c))) \<noteq> None"
  by (rule canvasArg_run) (simp add: initialRefs_def)

lemma loadState_held:
  "history (snd (loadState fab r st (s\<lparr>isProcessingAction := True\<rparr>))) = history s
   \<and> currentStateIndex (snd (loadState fab r st (s\<lparr>isProcessingAction := True\<rparr>))) = currentStateIndex s
   \<and> isProcessingAction (snd (loadState fab r st (s\<lparr>isProcessingAction := True\<rparr>)))"
  using loadState_guarded [of "s\<lparr>isProcessingAction := True\<rparr>" fab r st]
  by (auto split: option.splits)

lemma undo_keeps_history:
  "history (snd (undo fab r s)) = history s
   \<and> currentStateIndex (snd (undo fab r s))
       = (if currentStateIndex s \<le> 0 then currentStateIndex s else currentStateIndex s - 1)"
  using undo_cases [of fab r s] by (auto split: option.splits)

lemma redo_keeps_history:
  "history (snd (redo fab r s)) = history s
   \<and> currentStateIndex (snd (redo fab r s))
       = (if currentStateIndex s \<ge> int (length (history s)) - 1 then currentStateIndex s
          else currentStateIndex s + 1)"
  using redo_cases [of fab r s] by (auto split: option.splits)

lemma useHistory_undo_keeps_history:
  "historyRef (useHistory_undo fab evs s) = historyRef s
   \<and> currentIndexRef (useHistory_undo fab evs s)
       = (if canvasArg s = None \<or> \<not> canUndoState s \<or> currentIndexRef s \<le> 0
          then currentIndexRef s else currentIndexRef s - 1)"
  using useHistory_undo_cases [of fab evs s] by (auto split: option.splits)

lemma useHistory_redo_keeps_history:
  "historyRef (useHistory_redo fab evs s) = historyRef s
   \<and> currentIndexRef (useHistory_redo fab evs s)
       = (if canvasArg s = None \<or> \<not> canRedoState s
            \<or> currentIndexRef s \<ge> int (length (historyRef s)) - 1
          then currentIndexRef s else currentIndexRef s + 1)"
  using useHistory_redo_cases [of fab evs s] by (auto split: option.splits)

lemma saveState_evicts:
  assumes "hm_inv s" "currentStateIndex s = 49"
  shows "saveState fab now s =
    s\<lparr>history := tl (history s) @ [snapshotOf fab (canvas s, now)], currentStateIndex := 49\<rparr>"
proof -
  have "length (history s) = 50" using assms by (simp add: hm_inv_def MAX_HISTORY_LENGTH_def)
  moreover from this have "history s \<noteq> []" by auto
  ultimately show ?thesis using assms
    by (simp add: saveState_def Let_def hm_inv_def MAX_HISTORY_LENGTH_def snapshotOf_def)
qed

lemma useHistory_saveState_evicts:
  assumes "hook_inv s" "currentIndexRef s = 49" "canvasArg s = Some c"
  shows "useHistory_saveState fab now s =
    s\<lparr>historyRef := tl (historyRef s) @ [entryOf fab (c, now)], currentIndexRef := 49,
      canUndoState := True, canRedoState := False\<rparr>"
proof -
  have "length (historyRef s) = 50" using assms by (simp add: hook_inv_def MAX_HISTORY_LENGTH_def)
  moreover from this have "historyRef s \<noteq> []" by auto
  ultimately show ?thesis using assms
    by (simp add: useHistory_saveState_def Let_def hook_inv_def MAX_HISTORY_LENGTH_def entryOf_def)
qed

lemma saveState_truncates:
  assumes "\<not> isProcessingAction s" "- 1 \<le> currentStateIndex s"
    "currentStateIndex s + 2 \<le> int MAX_HISTORY_LENGTH"
  shows "saveState fab now s =
    s\<lparr>history := take (nat (currentStateIndex s + 1)) (history s) @ [snapshotOf fab (canvas s, now)],
      currentStateIndex := int (min (length (history s)) (nat (currentStateIndex s + 1)))\<rparr>"
  using assms
  by (auto simp: saveState_def Let_def js_slice0_def snapshotOf_def min_def)

lemma commit_after_undo:
  assumes "hm_inv s"
  shows "\<not> canRedo (commit fab m (snd (undo fab r s)))"
    and "history (commit fab m (snd (undo fab r s)))
         = take (nat (currentStateIndex (snd (undo fab r s)) + 1)) (history s) @ [snapshotOf fab m]"
    and "currentStateIndex (commit fab m (snd (undo fab r s)))
         = int (length (history (commit fab m (snd (undo fab r s))))) - 1"
proof -
  let ?s1 = "snd (undo fab r s)"
  let ?s1' = "?s1\<lparr>canvas := fst m\<rparr>"
  have inv1: "hm_inv ?s1" using assms by (rule hm_inv_undo)
  have h1: "history ?s1 = history s" using undo_keeps_history [of fab r s] by simp
  have i1: "currentStateIndex ?s1
       = (if currentStateIndex s \<le> 0 then currentStateIndex s else currentStateIndex s - 1)"
    using undo_keeps_history [of fab r s] by simp
  have b: "currentStateIndex ?s1 + 2 \<le> int MAX_HISTORY_LENGTH"
    using assms i1 by (auto simp: hm_inv_def MAX_HISTORY_LENGTH_def)
  have c: "commit fab m ?s1 = ?s1'\<lparr>history := take (nat (currentStateIndex ?s1 + 1)) (history s)
        @ [snapshotOf fab m],
      currentStateIndex := int (min (length (history s)) (nat (currentStateIndex ?s1 + 1)))\<rparr>"
    unfolding commit_def
    using inv1 b h1 by (subst saveState_truncates) (simp_all add: hm_inv_def)
  have le: "nat (currentStateIndex ?s1 + 1) \<le> length (history s)"
    using inv1 h1 by (simp add: hm_inv_def nat_le_iff)
  show "\<not> canRedo (commit fab m ?s1)"
    unfolding c using le by (simp add: canRedo_def min_def)
  show "history (commit fab m ?s1)
         = take (nat (currentStateIndex ?s1 + 1)) (history s) @ [snapshotOf fab m]"
    unfolding c by simp
  show "currentStateIndex (commit fab m ?s1) = int (length (history (commit fab m ?s1))) - 1"
    unfolding c using le by (simp add: min_def)
qed


lemma useHistory_saveState_truncates:
  assumes "\<not> isProcessingHistoryRef s" "- 1 \<le> currentIndexRef s"
    "currentIndexRef s + 2 \<le> int MAX_HISTORY_LENGTH" "canvasArg s = Some c"
  shows "useHistory_saveState fab now s =
    s\<lparr>historyRef := take (nat (currentIndexRef s + 1)) (historyRef s) @ [entryOf fab (c, now)],
      currentIndexRef := int (min (length (historyRef s)) (nat (currentIndexRef s + 1))),
      canUndoState := (0 < min (length (historyRef s)) (nat (currentIndexRef s + 1))),
      canRedoState := False\<rparr>"
proof (cases "length (historyRef s) \<le> nat (currentIndexRef s + 1)")
  case True
  then show ?thesis using assms
    by (auto simp: useHistory_saveState_def Let_def js_slice0_def entryOf_def min_def)
next
  case False
  then have ne: "historyRef s \<noteq> []" by auto
  have e: "(\<not> currentIndexRef s + 1 \<le> 0) = (0 \<le> currentIndexRef s)" by arith
  show ?thesis using assms False ne
    by (simp add: useHistory_saveState_def Let_def js_slice0_def entryOf_def min_def e)
qed

lemma hook_commit_after_undo:
  assumes "hook_inv s" "canvasArg s \<noteq> None"
  shows "\<not> canRedoState (hook_commit fab m (useHistory_undo fab evs s))"
    and "historyRef (hook_commit fab m (useHistory_undo fab evs s))
         = take (nat (currentIndexRef (useHistory_undo fab evs s) + 1)) (historyRef s) @ [entryOf fab m]"
    and "currentIndexRef (hook_commit fab m (useHistory_undo fab evs s))
         = int (length (historyRef (hook_commit fab m (useHistory_undo fab evs s)))) - 1"
proof -
  let ?s1 = "useHistory_undo fab evs s"
  let ?s1' = "?s1\<lparr>canvasArg := map_option (\<lambda>_. fst m) (canvasArg ?s1)\<rparr>"
  have inv1: "hook_inv ?s1" using assms(1) by (rule hook_inv_undo)
  have c1: "canvasArg ?s1 \<noteq> None"
    using canvasArg_step [OF assms(2), of fab "HUndo evs"] by simp
  have h1: "historyRef ?s1 = historyRef s" using useHistory_undo_keeps_history [of fab evs s] by simp
  have i1: "currentIndexRef ?s1
       = (if canvasArg s = None \<or> \<not> canUndoState s \<or> currentIndexRef s \<le> 0
          then currentIndexRef s else currentIndexRef s - 1)"
    using useHistory_undo_keeps_history [of fab evs s] by simp
  have b: "currentIndexRef ?s1 + 2 \<le> int MAX_HISTORY_LENGTH"
    using assms i1 by (auto simp: hook_inv_def MAX_HISTORY_LENGTH_def)
  have c: "hook_commit fab m ?s1 = ?s1'\<lparr>historyRef :=
        take (nat (currentIndexRef ?s1 + 1)) (historyRef s) @ [entryOf fab m],
      currentIndexRef := int (min (length (historyRef s)) (nat (currentIndexRef ?s1 + 1))),
      canUndoState := (0 < min (length (historyRef s)) (nat (currentIndexRef ?s1 + 1))),
      canRedoState := False\<rparr>"
    unfolding hook_commit_def
    using inv1 b h1 c1
    by (subst useHistory_saveState_truncates [where c = "fst m"]) (auto simp: hook_inv_def)
  have le: "nat (currentIndexRef ?s1 + 1) \<le> length (historyRef s)"
    using inv1 h1 by (simp add: hook_inv_def nat_le_iff)
  show "\<not> canRedoState (hook_commit fab m ?s1)"
    unfolding c by simp
  show "historyRef (hook_commit fab m ?s1)
         = take (nat (currentIndexRef ?s1 + 1)) (historyRef s) @ [entryOf fab m]"
    unfolding c by simp
  show "currentIndexRef (hook_commit fab m ?s1)
     = int (length (historyRef (hook_commit fab m ?s1))) - 1"
    unfolding c using le by (simp add: min_def)
qed

lemma clearHistory_eq:
  assumes "\<not> isProcessingAction s"
  shows "clearHistory fab now s =
    s\<lparr>history := [snapshotOf fab (canvas s, now)], currentStateIndex := 0\<rparr>"
  using assms
  by (simp add: clearHistory_def saveState_def Let_def snapshotOf_def MAX_HISTORY_LENGTH_def)

lemma useHistory_clearHistory_eq:
  assumes "\<not> isProcessingHistoryRef s" "canvasArg s = Some c"
  shows "useHistory_clearHistory fab now s =
    s\<lparr>historyRef := [entryOf fab (c, now)], currentIndexRef := 0,
      canUndoState := False, canRedoState := False\<rparr>"
  using assms
  by (simp add: useHistory_clearHistory_def useHistory_saveState_def Let_def entryOf_def
      MAX_HISTORY_LENGTH_def)

subsection \<open>Undoing every committed mutation\<close>

lemma completeAtReturn_textCanvas: "completeAtReturn textCanvas"
  by (simp add: completeAtReturn_def textCanvas_def)

lemma commits_from_new:
  assumes "length ms < MAX_HISTORY_LENGTH"
  shows "commits fab ms (newHistoryManager fab c0 t0) =
    \<lparr>history = map (snapshotOf fab) ((c0, t0) # ms), currentStateIndex = int (length ms),
     canvas = (if ms = [] then c0 else fst (last ms)), isProcessingAction = False\<rparr>"
  using assms by (subst commits_append) (simp_all add: newHistoryManager_eq)

lemma hook_commits_from_mount:
  assumes "length ms < MAX_HISTORY_LENGTH"
  shows "hook_commits fab ms (mountHistory fab c0 t0) =
    \<lparr>historyRef = map (entryOf fab) ((c0, t0) # ms), currentIndexRef = int (length ms),
     isProcessingHistoryRef = False, canUndoState = (length ms > 0), canRedoState = False,
     canvasArg = Some (if ms = [] then c0 else fst (last ms))\<rparr>"
  using assms by (subst hook_commits_append [where c = c0]) (simp_all add: mountHistory_eq)

text \<open>An undo inside the history, whatever the library has done when the call returns.\<close>

lemma undo_moves:
  assumes "\<not> isProcessingAction s" "0 < currentStateIndex s"
    "currentStateIndex s \<le> int (length (history s))"
  shows "\<exists>c. undo fab r s =
    (Inr True, s\<lparr>currentStateIndex := currentStateIndex s - 1,
       canvas := loadFromJSON fab (canvasState (history s ! nat (currentStateIndex s - 1))) c\<rparr>)"
proof -
  have i: "js_index (history s) (currentStateIndex s - 1)
      = Some (history s ! nat (currentStateIndex s - 1))"
    using assms by (simp add: js_index_def)
  from undo_cases [of fab r s] obtain c where "undo fab r s =
      (Inr True, s\<lparr>isProcessingAction := False, currentStateIndex := currentStateIndex s - 1,
        canvas := loadFromJSON fab (canvasState (history s ! nat (currentStateIndex s - 1))) c\<rparr>)"
    using assms(2) i by auto
  then show ?thesis using assms(1) by (intro exI [of _ c]) simp
qed

lemma undos_snoc: "undos fab (rs @ [r]) s = snd (undo fab r (undos fab rs s))"
  by (simp add: undos_def)

lemma undos_move:
  assumes "\<not> isProcessingAction s" "int (length rs) \<le> currentStateIndex s"
    "currentStateIndex s < int (length (history s))"
  shows "history (undos fab rs s) = history s
    \<and> currentStateIndex (undos fab rs s) = currentStateIndex s - int (length rs)
    \<and> \<not> isProcessingAction (undos fab rs s)
    \<and> (rs \<noteq> [] \<longrightarrow> (\<exists>c. canvas (undos fab rs s)
          = loadFromJSON fab
              (canvasState (history s ! nat (currentStateIndex s - int (length rs)))) c))"
  using assms
proof (induction rs rule: rev_induct)
  case Nil
  then show ?case by (simp add: undos_def)
next
  case (snoc r rs)
  let ?s1 = "undos fab rs s"
  have ih: "history ?s1 = history s"
    "currentStateIndex ?s1 = currentStateIndex s - int (length rs)"
    "\<not> isProcessingAction ?s1"
    using snoc by simp_all
  have p: "0 < currentStateIndex ?s1" "currentStateIndex ?s1 \<le> int (length (history ?s1))"
    using snoc.prems ih by simp_all
  from undo_moves [OF ih(3) p, of fab r] obtain c where
    u: "undo fab r ?s1 = (Inr True, ?s1\<lparr>currentStateIndex := currentStateIndex ?s1 - 1,
       canvas := loadFromJSON fab (canvasState (history ?s1 ! nat (currentStateIndex ?s1 - 1))) c\<rparr>)"
    by blast
  have e: "currentStateIndex s - int (length rs) - 1 = currentStateIndex s - int (length (rs @ [r]))"
    by simp
  show ?case
    unfolding undos_snoc u using ih by (auto simp: e simp del: length_append)
qed

lemma useHistory_undo_moves:
  assumes "\<not> isProcessingHistoryRef s" "0 < currentIndexRef s"
    "currentIndexRef s \<le> int (length (historyRef s))" "canvasArg s \<noteq> None" "canUndoState s"
  shows "\<exists>c. useHistory_undo fab evs s =
    s\<lparr>currentIndexRef := currentIndexRef s - 1,
      canvasArg := Some (loadFromJSON fab (json (historyRef s ! nat (currentIndexRef s - 1))) c),
      canUndoState := (currentIndexRef s - 1 > 0),
      canRedoState := (currentIndexRef s - 1 < int (length (historyRef s)) - 1)\<rparr>"
proof -
  have i: "js_index (historyRef s) (currentIndexRef s - 1)
      = Some (historyRef s ! nat (currentIndexRef s - 1))"
    using assms by (simp add: js_index_def)
  from useHistory_undo_cases [of fab evs s] obtain c where "useHistory_undo fab evs s =
      s\<lparr>isProcessingHistoryRef := False, currentIndexRef := currentIndexRef s - 1,
        canvasArg := Some (loadFromJSON fab (json (historyRef s ! nat (currentIndexRef s - 1))) c),
        canUndoState := (currentIndexRef s - 1 > 0),
        canRedoState := (currentIndexRef s - 1 < int (length (historyRef s)) - 1)\<rparr>"
    using assms(2,4,5) i by auto
  then show ?thesis using assms(1) by (intro exI [of _ c]) simp
qed

lemma hook_undos_snoc: "hook_undos fab (rs @ [r]) s = useHistory_undo fab r (hook_undos fab rs s)"
  by (simp add: hook_undos_def)

lemma hook_undos_move:
  assumes "\<not> isProcessingHistoryRef s" "int (length rs) \<le> currentIndexRef s"
    "currentIndexRef s < int (length (historyRef s))" "canvasArg s \<noteq> None"
    "canUndoState s = (currentIndexRef s > 0)"
  shows "historyRef (hook_undos fab rs s) = historyRef s
    \<and> currentIndexRef (hook_undos fab rs s) = currentIndexRef s - int (length rs)
    \<and> \<not> isProcessingHistoryRef (hook_undos fab rs s)
    \<and> canvasArg (hook_undos fab rs s) \<noteq> None
    \<and> canUndoState (hook_undos fab rs s) = (currentIndexRef s - int (length rs) > 0)
    \<and> (rs \<noteq> [] \<longrightarrow> (\<exists>c. canvasArg (hook_undos fab rs s)
          = Some (loadFromJSON fab
              (json (historyRef s ! nat (currentIndexRef s - int (length rs)))) c)))"
  using assms
proof (induction rs rule: rev_induct)
  case Nil
  then show ?case by (simp add: hook_undos_def)
next
  case (snoc r rs)
  let ?s1 = "hook_undos fab rs s"
  have ih: "historyRef ?s1 = historyRef s"
    "currentIndexRef ?s1 = currentIndexRef s - int (length rs)"
    "\<not> isProcessingHistoryRef ?s1" "canvasArg ?s1 \<noteq> None"
    "canUndoState ?s1 = (currentIndexRef s - int (length rs) > 0)"
    using snoc by simp_all
  have p: "0 < currentIndexRef ?s1" "currentIndexRef ?s1 \<le> int (length (historyRef ?s1))"
    using snoc.prems ih by simp_all
  have q: "canUndoState ?s1" using ih p by simp
  from useHistory_undo_moves [OF ih(3) p ih(4) q, of fab r] obtain c where
    u: "useHistory_undo fab r ?s1 =
      ?s1\<lparr>currentIndexRef := currentIndexRef ?s1 - 1,
        canvasArg := Some (loadFromJSON fab (json (historyRef ?s1 ! nat (currentIndexRef ?s1 - 1))) c),
        canUndoState := (currentIndexRef ?s1 - 1 > 0),
        canRedoState := (currentIndexRef ?s1 - 1 < int (length (historyRef ?s1)) - 1)\<rparr>"
    by blast
  have e: "currentIndexRef s - int (length rs) - 1 = currentIndexRef s - int (length (rs @ [r]))"
    by simp
  show ?case
    unfolding hook_undos_snoc u using ih by (auto simp: e simp del: length_append)
qed

text \<open>
  Claim C1, amended. The constructor of \<^verbatim>\<open>HistoryManager\<close>, and the effect of the hook
  once the canvas exists, capture the initial content \<open>c0\<close> as a first snapshot. Then
  come \<open>N \<le> 49\<close> committed mutations \<open>ms\<close>, each a change of content followed by
  one \<^verbatim>\<open>saveState()\<close>, and \<open>N\<close> calls of \<^verbatim>\<open>undo\<close> in a row: between them no
  capture is made, and the events \<open>rs\<close>, \<open>es\<close> that the canvas fires are fired while
  the calls run. For every library, the \<open>N\<close> undos leave the snapshots as they are and
  the cursor on the first snapshot, that of the initial content, and it is this snapshot
  that the last undo hands to \<^verbatim>\<open>loadFromJSON\<close>; undo is unavailable then, and it
  is available after every smaller number \<open>k\<close> of undos. For a library whose load is
  complete when the call returns, the canvas has its initial content again. What happens
  when a load resolves after its undo has returned is not part of this statement. This
  holds for the class and for the hook.
\<close>

theorem undo_all_restores_initial:
  assumes "length ms \<le> 49" and "length rs = length ms" and "length es = length ms"
  shows "(let s = undos fab rs (commits fab ms (newHistoryManager fab c0 t0)) in
           history s = map (snapshotOf fab) ((c0, t0) # ms) \<and> currentStateIndex s = 0
           \<and> \<not> canUndo s
           \<and> (ms \<noteq> [] \<longrightarrow> (\<exists>c. canvas s = loadFromJSON fab (toJSON fab c0) c))
           \<and> (completeAtReturn fab \<longrightarrow> canvas s = c0))
    \<and> (\<forall>k < length ms.
          canUndo (undos fab (take k rs) (commits fab ms (newHistoryManager fab c0 t0))))
    \<and> (let h = hook_undos fab es (hook_commits fab ms (mountHistory fab c0 t0)) in
           historyRef h = map (entryOf fab) ((c0, t0) # ms) \<and> currentIndexRef h = 0
           \<and> \<not> canUndoState h
           \<and> (ms \<noteq> [] \<longrightarrow> (\<exists>c. canvasArg h = Some (loadFromJSON fab (toJSON fab c0) c)))
           \<and> (completeAtReturn fab \<longrightarrow> canvasArg h = Some c0))
    \<and> (\<forall>k < length ms.
          canUndoState (hook_undos fab (take k es) (hook_commits fab ms (mountHistory fab c0 t0))))"
proof -
  let ?s1 = "commits fab ms (newHistoryManager fab c0 t0)"
  let ?h1 = "hook_commits fab ms (mountHistory fab c0 t0)"
  have n: "length ms < MAX_HISTORY_LENGTH"
    using assms(1) by (simp add: MAX_HISTORY_LENGTH_def)
  note s1 = commits_from_new [OF n, of fab c0 t0]
  note h1 = hook_commits_from_mount [OF n, of fab c0 t0]
  have m: "history (undos fab qs ?s1) = history ?s1
    \<and> currentStateIndex (undos fab qs ?s1) = currentStateIndex ?s1 - int (length qs)
    \<and> \<not> isProcessingAction (undos fab qs ?s1)
    \<and> (qs \<noteq> [] \<longrightarrow> (\<exists>c. canvas (undos fab qs ?s1)
          = loadFromJSON fab
              (canvasState (history ?s1 ! nat (currentStateIndex ?s1 - int (length qs)))) c))"
    if "length qs \<le> length ms" for qs
    using that by (intro undos_move) (simp_all add: s1)
  have hm: "historyRef (hook_undos fab qs ?h1) = historyRef ?h1
    \<and> currentIndexRef (hook_undos fab qs ?h1) = currentIndexRef ?h1 - int (length qs)
    \<and> \<not> isProcessingHistoryRef (hook_undos fab qs ?h1)
    \<and> canvasArg (hook_undos fab qs ?h1) \<noteq> None
    \<and> canUndoState (hook_undos fab qs ?h1) = (currentIndexRef ?h1 - int (length qs) > 0)
    \<and> (qs \<noteq> [] \<longrightarrow> (\<exists>c. canvasArg (hook_undos fab qs ?h1)
          = Some (loadFromJSON fab
              (json (historyRef ?h1 ! nat (currentIndexRef ?h1 - int (length qs)))) c)))"
    if "length qs \<le> length ms" for qs
    using that by (intro hook_undos_move) (simp_all add: h1)
  have a: "history (undos fab rs ?s1) = map (snapshotOf fab) ((c0, t0) # ms)
      \<and> currentStateIndex (undos fab rs ?s1) = 0 \<and> \<not> canUndo (undos fab rs ?s1)"
    using m [of rs] assms(2) by (simp add: s1 canUndo_def)
  have b: "\<exists>c. canvas (undos fab rs ?s1) = loadFromJSON fab (toJSON fab c0) c" if "ms \<noteq> []"
    using m [of rs] assms(2) that by (auto simp: s1 snapshotOf_def)
  have c: "canvas (undos fab rs ?s1) = c0" if "completeAtReturn fab"
    using undos_after_commits [OF that n, of rs c0 t0] assms(2) by simp
  have d: "canUndo (undos fab (take k rs) ?s1)" if "k < length ms" for k
    using m [of "take k rs"] assms(2) that by (simp add: s1 canUndo_def)
  have a': "historyRef (hook_undos fab es ?h1) = map (entryOf fab) ((c0, t0) # ms)
      \<and> currentIndexRef (hook_undos fab es ?h1) = 0 \<and> \<not> canUndoState (hook_undos fab es ?h1)"
    using hm [of es] assms(3) by (simp add: h1)
  have b': "\<exists>c. canvasArg (hook_undos fab es ?h1) = Some (loadFromJSON fab (toJSON fab c0) c)"
    if "ms \<noteq> []"
    using hm [of es] assms(3) that by (auto simp: h1 entryOf_def)
  have c': "canvasArg (hook_undos fab es ?h1) = Some c0" if "completeAtReturn fab"
    using hook_undos_after_commits(1) [OF that n, of es c0 t0] assms(3) by simp
  have d': "canUndoState (hook_undos fab (take k es) ?h1)" if "k < length ms" for k
    using hm [of "take k es"] assms(3) that by (simp add: h1)
  from a b c d a' b' c' d' show ?thesis unfolding Let_def by blast
qed

theorem undo_all_restores_initial_witness:
  "completeAtReturn textCanvas
   \<and> canvas (undos textCanvas [noEvents, noEvents]
        (commits textCanvas [(''a'', 1), (''ab'', 2)] (newHistoryManager textCanvas [] 0))) = []
   \<and> currentStateIndex (undos textCanvas [noEvents, noEvents]
        (commits textCanvas [(''a'', 1), (''ab'', 2)] (newHistoryManager textCanvas [] 0))) = 0
   \<and> \<not> canUndo (undos textCanvas [noEvents, noEvents]
        (commits textCanvas [(''a'', 1), (''ab'', 2)] (newHistoryManager textCanvas [] 0)))
   \<and> canUndo (undos textCanvas [noEvents]
        (commits textCanvas [(''a'', 1), (''ab'', 2)] (newHistoryManager textCanvas [] 0)))
   \<and> canvasArg (hook_undos textCanvas [[], []]
        (hook_commits textCanvas [(''a'', 1), (''ab'', 2)] (mountHistory textCanvas [] 0))) = Some []
   \<and> currentIndexRef (hook_undos pendingCanvas [[], []]
        (hook_commits pendingCanvas [(''a'', 1), (''ab'', 2)] (mountHistory pendingCanvas [] 0))) = 0"
proof -
  have t: "take (Suc 0) [noEvents, noEvents] = [noEvents]" by simp
  have l: "length [(''a'', 1::nat), (''ab'', 2)] \<le> 49" by simp
  show ?thesis
    using undo_all_restores_initial [OF l, of "[noEvents, noEvents]" "[[], []]" textCanvas "[]" 0]
      undo_all_restores_initial [OF l, of "[noEvents, noEvents]" "[[], []]" pendingCanvas "[]" 0]
      completeAtReturn_textCanvas
    by (auto simp: t Let_def dest: spec [of _ "Suc 0"])
qed

text \<open>
  Claim C1 as written allows \<open>N = 50\<close>. The history keeps 50 snapshots, the first of
  which is the initial one; the 50th mutation evicts it. On a canvas whose load is
  complete at the return, whose initial content is the empty text and whose \<open>n\<close>-th
  mutation makes it \<open>n\<close> letters long, 50 undos after 50 committed mutations end at the
  content of the first mutation, with undo unavailable, and not at the empty canvas.
\<close>

theorem undo_fifty_misses_initial:
  "completeAtReturn textCanvas
   \<and> canvas (undos textCanvas (replicate 50 noEvents)
        (commits textCanvas (map (\<lambda>n. (replicate n (CHR ''x''), n)) [1..<51])
          (newHistoryManager textCanvas [] 0))) = ''x''
   \<and> \<not> canUndo (undos textCanvas (replicate 50 noEvents)
        (commits textCanvas (map (\<lambda>n. (replicate n (CHR ''x''), n)) [1..<51])
          (newHistoryManager textCanvas [] 0)))
   \<and> canvasArg (hook_undos textCanvas (replicate 50 [])
        (hook_commits textCanvas (map (\<lambda>n. (replicate n (CHR ''x''), n)) [1..<51])
          (mountHistory textCanvas [] 0))) = Some ''x''"
proof -
  have a: "canvas (undos textCanvas (replicate 50 noEvents)
        (commits textCanvas (map (\<lambda>n. (replicate n (CHR ''x''), n)) [1..<51])
          (newHistoryManager textCanvas [] 0))) = ''x''"
    by code_simp
  have b: "\<not> canUndo (undos textCanvas (replicate 50 noEvents)
        (commits textCanvas (map (\<lambda>n. (replicate n (CHR ''x''), n)) [1..<51])
          (newHistoryManager textCanvas [] 0)))"
    by code_simp
  have c: "canvasArg (hook_undos textCanvas (replicate 50 [])
        (hook_commits textCanvas (map (\<lambda>n. (replicate n (CHR ''x''), n)) [1..<51])
          (mountHistory textCanvas [] 0))) = Some ''x''"
    by code_simp
  from a b c completeAtReturn_textCanvas show ?thesis by blast
qed

subsection \<open>The replay guard\<close>

text \<open>
  What the guard does cover. A capture requested while the guard is held changes
  nothing, in the class (\<^verbatim>\<open>saveState\<close>) and in the hook
  (\<^verbatim>\<open>handleHistoryEvent\<close>, \<^verbatim>\<open>saveState\<close>). \<^verbatim>\<open>loadState\<close> entered with the
  guard held leaves the snapshots and the cursor as they are and the guard held,
  whatever events the canvas fires while the call runs. So for the events that are fired
  before \<^verbatim>\<open>undo\<close> and \<^verbatim>\<open>redo\<close> return, the two leave the list as it is and move
  the cursor by one step or not at all.
\<close>

lemma guard_covers_the_call:
  "saveState fab now (s\<lparr>isProcessingAction := True\<rparr>) = s\<lparr>isProcessingAction := True\<rparr>
   \<and> history (snd (loadState fab r st (s\<lparr>isProcessingAction := True\<rparr>))) = history s
   \<and> currentStateIndex (snd (loadState fab r st (s\<lparr>isProcessingAction := True\<rparr>)))
       = currentStateIndex s
   \<and> isProcessingAction (snd (loadState fab r st (s\<lparr>isProcessingAction := True\<rparr>)))
   \<and> history (snd (undo fab r s)) = history s
   \<and> currentStateIndex (snd (undo fab r s))
       = (if currentStateIndex s \<le> 0 then currentStateIndex s else currentStateIndex s - 1)
   \<and> history (snd (redo fab r s)) = history s
   \<and> currentStateIndex (snd (redo fab r s))
       = (if currentStateIndex s \<ge> int (length (history s)) - 1 then currentStateIndex s
          else currentStateIndex s + 1)
   \<and> handleHistoryEvent fab now (h\<lparr>isProcessingHistoryRef := True\<rparr>)
       = h\<lparr>isProcessingHistoryRef := True\<rparr>
   \<and> useHistory_saveState fab now (h\<lparr>isProcessingHistoryRef := True\<rparr>)
       = h\<lparr>isProcessingHistoryRef := True\<rparr>
   \<and> historyRef (useHistory_fireEvents fab evs (h\<lparr>isProcessingHistoryRef := True\<rparr>))
       = historyRef h
   \<and> currentIndexRef (useHistory_fireEvents fab evs (h\<lparr>isProcessingHistoryRef := True\<rparr>))
       = currentIndexRef h
   \<and> historyRef (useHistory_undo fab evs h) = historyRef h
   \<and> currentIndexRef (useHistory_undo fab evs h)
       = (if canvasArg h = None \<or> \<not> canUndoState h \<or> currentIndexRef h \<le> 0
          then currentIndexRef h else currentIndexRef h - 1)
   \<and> historyRef (useHistory_redo fab evs h) = historyRef h
   \<and> currentIndexRef (useHistory_redo fab evs h)
       = (if canvasArg h = None \<or> \<not> canRedoState h
            \<or> currentIndexRef h \<ge> int (length (historyRef h)) - 1
          then currentIndexRef h else currentIndexRef h + 1)"
  using loadState_held [of fab r st s] undo_keeps_history [of fab r s]
    redo_keeps_history [of fab r s] useHistory_undo_keeps_history [of fab evs h]
    useHistory_redo_keeps_history [of fab evs h]
  by (simp add: saveState_guarded handleHistoryEvent_guarded useHistory_saveState_guarded
      useHistory_fireEvents_guarded)

text \<open>
  Claim C2 asks that no snapshot of a replay is ever recorded. The two implementations
  set the guard, call \<^verbatim>\<open>loadFromJSON\<close> and reset the guard in the next statement,
  without waiting for the load. With a load that is pending at the return, the events of
  the replay arrive when the guard is off, and each is captured. After two drawings the
  history has three snapshots. In the class, an undo clears the two objects under the
  guard; the load then adds the first object again, and this is recorded as a third
  snapshot in place of the redo branch. A second undo ends the same way, so two undos
  leave one object on the canvas and undo available. In the hook the load removes the
  two objects and adds one, which makes five entries, the cursor on the last, and no
  redo.
\<close>

theorem late_load_events_are_captured:
  "history twoDrawn
     = [\<lparr>canvasState = [], timestamp = 0\<rparr>, \<lparr>canvasState = ''a'', timestamp = 1\<rparr>,
        \<lparr>canvasState = ''ab'', timestamp = 2\<rparr>]
   \<and> history (snd (undo pendingCanvas clearing twoDrawn)) = history twoDrawn
   \<and> \<not> isProcessingAction (snd (undo pendingCanvas clearing twoDrawn))
   \<and> history (undoAndSettle pendingCanvas clearing [(''a'', 4)] twoDrawn)
     = [\<lparr>canvasState = [], timestamp = 0\<rparr>, \<lparr>canvasState = ''a'', timestamp = 1\<rparr>,
        \<lparr>canvasState = ''a'', timestamp = 4\<rparr>]
   \<and> \<not> canRedo (undoAndSettle pendingCanvas clearing [(''a'', 4)] twoDrawn)
   \<and> canvas (undoAndSettle pendingCanvas \<lparr>clearEvents = [([], 5)], loadEvents = []\<rparr> [(''a'', 6)]
        (undoAndSettle pendingCanvas clearing [(''a'', 4)] twoDrawn)) = ''a''
   \<and> canUndo (undoAndSettle pendingCanvas \<lparr>clearEvents = [([], 5)], loadEvents = []\<rparr> [(''a'', 6)]
        (undoAndSettle pendingCanvas clearing [(''a'', 4)] twoDrawn))
   \<and> historyRef (useHistory_undoAndSettle pendingCanvas [] [(''b'', 4), ([], 4), (''a'', 4)]
        twoDrawnHook)
     = [\<lparr>json = [], entryTimestamp = 0\<rparr>, \<lparr>json = ''a'', entryTimestamp = 1\<rparr>,
        \<lparr>json = ''b'', entryTimestamp = 4\<rparr>, \<lparr>json = [], entryTimestamp = 4\<rparr>,
        \<lparr>json = ''a'', entryTimestamp = 4\<rparr>]
   \<and> currentIndexRef (useHistory_undoAndSettle pendingCanvas [] [(''b'', 4), ([], 4), (''a'', 4)]
        twoDrawnHook) = 4
   \<and> \<not> canRedoState (useHistory_undoAndSettle pendingCanvas [] [(''b'', 4), ([], 4), (''a'', 4)]
        twoDrawnHook)"
proof -
  have a: "history twoDrawn
     = [\<lparr>canvasState = [], timestamp = 0\<rparr>, \<lparr>canvasState = ''a'', timestamp = 1\<rparr>,
        \<lparr>canvasState = ''ab'', timestamp = 2\<rparr>]"
    by code_simp
  have b: "history (snd (undo pendingCanvas clearing twoDrawn)) = history twoDrawn"
    by code_simp
  have c: "\<not> isProcessingAction (snd (undo pendingCanvas clearing twoDrawn))"
    by code_simp
  have d: "history (undoAndSettle pendingCanvas clearing [(''a'', 4)] twoDrawn)
     = [\<lparr>canvasState = [], timestamp = 0\<rparr>, \<lparr>canvasState = ''a'', timestamp = 1\<rparr>,
        \<lparr>canvasState = ''a'', timestamp = 4\<rparr>]"
    by code_simp
  have e: "\<not> canRedo (undoAndSettle pendingCanvas clearing [(''a'', 4)] twoDrawn)"
    by code_simp
  have f: "canvas (undoAndSettle pendingCanvas \<lparr>clearEvents = [([], 5)], loadEvents = []\<rparr>
        [(''a'', 6)] (undoAndSettle pendingCanvas clearing [(''a'', 4)] twoDrawn)) = ''a''"
    by code_simp
  have g: "canUndo (undoAndSettle pendingCanvas \<lparr>clearEvents = [([], 5)], loadEvents = []\<rparr>
        [(''a'', 6)] (undoAndSettle pendingCanvas clearing [(''a'', 4)] twoDrawn))"
    by code_simp
  have h: "historyRef (useHistory_undoAndSettle pendingCanvas [] [(''b'', 4), ([], 4), (''a'', 4)]
        twoDrawnHook)
     = [\<lparr>json = [], entryTimestamp = 0\<rparr>, \<lparr>json = ''a'', entryTimestamp = 1\<rparr>,
        \<lparr>json = ''b'', entryTimestamp = 4\<rparr>, \<lparr>json = [], entryTimestamp = 4\<rparr>,
        \<lparr>json = ''a'', entryTimestamp = 4\<rparr>]"
    by code_simp
  have i: "currentIndexRef (useHistory_undoAndSettle pendingCanvas [] [(''b'', 4), ([], 4), (''a'', 4)]
        twoDrawnHook) = 4"
    by code_simp
  have j: "\<not> canRedoState (useHistory_undoAndSettle pendingCanvas [] [(''b'', 4), ([], 4), (''a'', 4)]
        twoDrawnHook)"
    by code_simp
  from a b c d e f g h i j show ?thesis by blast
qed

subsection \<open>The bound of 50 snapshots\<close>

text \<open>
  Claim C3. After every sequence of content changes and calls of \<^verbatim>\<open>saveState\<close>,
  \<^verbatim>\<open>undo\<close>, \<^verbatim>\<open>redo\<close> and \<^verbatim>\<open>clearHistory\<close>, on the object before its
  constructor's first capture or on the hook before its first effect, the list has at
  most 50 snapshots and the cursor lies between -1 and the last index. When the
  snapshots up to the cursor and one more would be more than 50, a capture drops the
  first snapshot and appends the new one to the rest: the list has 50 entries again and
  the cursor, which the append puts at 50, is decremented to 49, the index of the new
  snapshot.
\<close>

theorem history_stays_bounded:
  "(let s = run fab ops (initialFields c) in
      length (history s) \<le> 50 \<and> - 1 \<le> currentStateIndex s
      \<and> currentStateIndex s \<le> int (length (history s)) - 1
      \<and> (50 < length (take (nat (currentStateIndex s + 1)) (history s)) + 1 \<longrightarrow>
           history (saveState fab now s) = tl (history s) @ [snapshotOf fab (canvas s, now)]
           \<and> currentStateIndex (saveState fab now s) = 49
           \<and> length (history (saveState fab now s)) = 50))
   \<and> (let h = hook_run fab hops (initialRefs (Some c)) in
      length (historyRef h) \<le> 50 \<and> - 1 \<le> currentIndexRef h
      \<and> currentIndexRef h \<le> int (length (historyRef h)) - 1
      \<and> canvasArg h \<noteq> None
      \<and> (50 < length (take (nat (currentIndexRef h + 1)) (historyRef h)) + 1 \<longrightarrow>
           historyRef (useHistory_saveState fab now h)
             = tl (historyRef h) @ [entryOf fab (the (canvasArg h), now)]
           \<and> currentIndexRef (useHistory_saveState fab now h) = 49
           \<and> length (historyRef (useHistory_saveState fab now h)) = 50))"
proof -
  let ?s = "run fab ops (initialFields c)"
  let ?h = "hook_run fab hops (initialRefs (Some c))"
  have i: "hm_inv ?s" by (rule hm_inv_reachable)
  have j: "hook_inv ?h" by (rule hook_inv_reachable)
  obtain cv where cv: "canvasArg ?h = Some cv"
    using canvasArg_reachable [of fab hops c] by auto
  have a: "length (history ?s) \<le> 50 \<and> - 1 \<le> currentStateIndex ?s
      \<and> currentStateIndex ?s \<le> int (length (history ?s)) - 1"
    using i by (simp add: hm_inv_def MAX_HISTORY_LENGTH_def)
  have b: "history (saveState fab now ?s) = tl (history ?s) @ [snapshotOf fab (canvas ?s, now)]
           \<and> currentStateIndex (saveState fab now ?s) = 49
           \<and> length (history (saveState fab now ?s)) = 50"
    if "50 < length (take (nat (currentStateIndex ?s + 1)) (history ?s)) + 1"
  proof -
    from that a have k: "currentStateIndex ?s = 49" by (simp; linarith)
    with a have "length (history ?s) = 50" by simp
    then show ?thesis using saveState_evicts [OF i k, of fab now] k by simp
  qed
  have a': "length (historyRef ?h) \<le> 50 \<and> - 1 \<le> currentIndexRef ?h
      \<and> currentIndexRef ?h \<le> int (length (historyRef ?h)) - 1"
    using j by (simp add: hook_inv_def MAX_HISTORY_LENGTH_def)
  have b': "historyRef (useHistory_saveState fab now ?h)
             = tl (historyRef ?h) @ [entryOf fab (the (canvasArg ?h), now)]
           \<and> currentIndexRef (useHistory_saveState fab now ?h) = 49
           \<and> length (historyRef (useHistory_saveState fab now ?h)) = 50"
    if "50 < length (take (nat (currentIndexRef ?h + 1)) (historyRef ?h)) + 1"
  proof -
    from that a' have k: "currentIndexRef ?h = 49" by (simp; linarith)
    with a' have "length (historyRef ?h) = 50" by simp
    then show ?thesis using useHistory_saveState_evicts [OF j k cv, of fab now] k cv by simp
  qed
  from a b a' b' cv show ?thesis unfolding Let_def by blast
qed

theorem history_stays_bounded_witness:
  "50 < length (take (nat (currentStateIndex (run textCanvas fullHistory (initialFields [])) + 1))
            (history (run textCanvas fullHistory (initialFields [])))) + 1
   \<and> length (history (saveState textCanvas 50 (run textCanvas fullHistory (initialFields [])))) = 50
   \<and> currentStateIndex (saveState textCanvas 50 (run textCanvas fullHistory (initialFields []))) = 49
   \<and> 50 < length (take (nat (currentIndexRef (hook_run textCanvas fullHookHistory (initialRefs (Some []))) + 1))
            (historyRef (hook_run textCanvas fullHookHistory (initialRefs (Some []))))) + 1
   \<and> length (historyRef (useHistory_saveState textCanvas 50
          (hook_run textCanvas fullHookHistory (initialRefs (Some []))))) = 50"
proof -
  have l: "length (history (run textCanvas fullHistory (initialFields []))) = 50"
    by code_simp
  have i: "currentStateIndex (run textCanvas fullHistory (initialFields [])) = 49"
    by code_simp
  have l': "length (historyRef (hook_run textCanvas fullHookHistory (initialRefs (Some [])))) = 50"
    by code_simp
  have i': "currentIndexRef (hook_run textCanvas fullHookHistory (initialRefs (Some []))) = 49"
    by code_simp
  show ?thesis
    using history_stays_bounded [of textCanvas fullHistory "[]" 50 fullHookHistory] l i l' i'
    by (simp add: Let_def)
qed

subsection \<open>A capture after an undo\<close>

text \<open>
  Claim C4. In every state that a sequence of operations reaches, an undo followed by a
  committed mutation leaves no redo: the capture keeps the snapshots up to the cursor
  that the undo left, appends the new one, and the cursor is the last index. When the
  undo did move the cursor, redo was available before the capture.
\<close>

theorem commit_after_undo_discards_redo:
  "(let s = run fab ops (initialFields c);
        s1 = snd (undo fab r s);
        s2 = commit fab m s1
    in \<not> canRedo s2
       \<and> history s2 = take (nat (currentStateIndex s1 + 1)) (history s1) @ [snapshotOf fab m]
       \<and> currentStateIndex s2 = int (length (history s2)) - 1
       \<and> (0 < currentStateIndex s \<longrightarrow> canRedo s1))
   \<and> (let h = hook_run fab hops (initialRefs (Some c));
        h1 = useHistory_undo fab evs h;
        h2 = hook_commit fab m h1
    in \<not> canRedoState h2
       \<and> historyRef h2 = take (nat (currentIndexRef h1 + 1)) (historyRef h1) @ [entryOf fab m]
       \<and> currentIndexRef h2 = int (length (historyRef h2)) - 1
       \<and> (0 < currentIndexRef h \<longrightarrow> canRedoState h1))"
proof -
  let ?s = "run fab ops (initialFields c)"
  let ?h = "hook_run fab hops (initialRefs (Some c))"
  have i: "hm_inv ?s" by (rule hm_inv_reachable)
  have j: "hook_inv ?h" by (rule hook_inv_reachable)
  have cv: "canvasArg ?h \<noteq> None" by (rule canvasArg_reachable)
  have h1: "history (snd (undo fab r ?s)) = history ?s"
    using undo_keeps_history [of fab r ?s] by simp
  have h1': "historyRef (useHistory_undo fab evs ?h) = historyRef ?h"
    using useHistory_undo_keeps_history [of fab evs ?h] by simp
  have a: "canRedo (snd (undo fab r ?s))" if "0 < currentStateIndex ?s"
    using that i undo_keeps_history [of fab r ?s] by (simp add: canRedo_def hm_inv_def)
  have inv1: "hook_inv (useHistory_undo fab evs ?h)" using j by (rule hook_inv_undo)
  obtain cv0 where cv0: "canvasArg ?h = Some cv0" using cv by auto
  have a': "canRedoState (useHistory_undo fab evs ?h)" if "0 < currentIndexRef ?h"
    using that j cv0 inv1 useHistory_undo_keeps_history [of fab evs ?h]
    by (simp add: hook_inv_def)
  show ?thesis
    unfolding Let_def
    using commit_after_undo [OF i, of fab m r] hook_commit_after_undo [OF j cv, of fab m evs]
      a a' h1 h1'
    by simp
qed

theorem commit_after_undo_discards_redo_witness:
  "0 < currentStateIndex (run textCanvas threeSnapshots (initialFields []))
   \<and> canRedo (snd (undo textCanvas noEvents (run textCanvas threeSnapshots (initialFields []))))
   \<and> \<not> canRedo (commit textCanvas (''ac'', 3)
        (snd (undo textCanvas noEvents (run textCanvas threeSnapshots (initialFields [])))))
   \<and> 0 < currentIndexRef (hook_run textCanvas threeEntries (initialRefs (Some [])))
   \<and> canRedoState (useHistory_undo textCanvas []
        (hook_run textCanvas threeEntries (initialRefs (Some []))))
   \<and> \<not> canRedoState (hook_commit textCanvas (''ac'', 3)
        (useHistory_undo textCanvas [] (hook_run textCanvas threeEntries (initialRefs (Some [])))))"
proof -
  have a: "0 < currentStateIndex (run textCanvas threeSnapshots (initialFields []))"
    by code_simp
  have b: "0 < currentIndexRef (hook_run textCanvas threeEntries (initialRefs (Some [])))"
    by code_simp
  show ?thesis
    using commit_after_undo_discards_redo [of textCanvas threeSnapshots "[]" noEvents
        "(''ac'', 3)" threeEntries "[]"] a b
    by (simp add: Let_def)
qed

subsection \<open>Clearing the history\<close>

text \<open>
  Claim C10. In every state that a sequence of operations reaches,
  \<^verbatim>\<open>clearHistory\<close> leaves exactly one snapshot, of the content the canvas has at
  that moment, and the cursor at 0; undo and redo are unavailable afterwards and the
  content of the canvas is as before. For the hook the sequence starts when the canvas
  exists.
\<close>

theorem clearHistory_resets:
  "(let s = run fab ops (initialFields c);
        s' = clearHistory fab now s
    in history s' = [snapshotOf fab (canvas s, now)] \<and> currentStateIndex s' = 0
       \<and> \<not> canUndo s' \<and> \<not> canRedo s' \<and> canvas s' = canvas s)
   \<and> (let h = hook_run fab hops (initialRefs (Some c));
        h' = useHistory_clearHistory fab now h
    in (\<exists>cv. canvasArg h = Some cv \<and> historyRef h' = [entryOf fab (cv, now)])
       \<and> currentIndexRef h' = 0
       \<and> \<not> canUndoState h' \<and> \<not> canRedoState h' \<and> canvasArg h' = canvasArg h)"
proof -
  let ?s = "run fab ops (initialFields c)"
  let ?h = "hook_run fab hops (initialRefs (Some c))"
  have i: "\<not> isProcessingAction ?s"
    using hm_inv_reachable [of fab ops c] by (simp add: hm_inv_def)
  have j: "\<not> isProcessingHistoryRef ?h"
    using hook_inv_reachable [of fab hops "Some c"] by (simp add: hook_inv_def)
  obtain cv where cv: "canvasArg ?h = Some cv"
    using canvasArg_reachable [of fab hops c] by auto
  show ?thesis
    unfolding Let_def
    using clearHistory_eq [OF i, of fab now] useHistory_clearHistory_eq [OF j cv, of fab now] cv
    by (simp add: canUndo_def canRedo_def)
qed

theorem clearHistory_resets_witness:
  "history (clearHistory textCanvas 9 (run textCanvas threeSnapshots (initialFields [])))
     = [\<lparr>canvasState = ''ab'', timestamp = 9\<rparr>]
   \<and> canUndo (run textCanvas threeSnapshots (initialFields []))
   \<and> \<not> canUndo (clearHistory textCanvas 9 (run textCanvas threeSnapshots (initialFields [])))
   \<and> historyRef (useHistory_clearHistory textCanvas 9
        (hook_run textCanvas threeEntries (initialRefs (Some []))))
     = [\<lparr>json = ''ab'', entryTimestamp = 9\<rparr>]"
proof -
  have a: "canvas (run textCanvas threeSnapshots (initialFields [])) = ''ab''"
    by code_simp
  have b: "canUndo (run textCanvas threeSnapshots (initialFields []))"
    by code_simp
  have c: "canvasArg (hook_run textCanvas threeEntries (initialRefs (Some []))) = Some ''ab''"
    by code_simp
  show ?thesis
    using clearHistory_resets [of textCanvas threeSnapshots "[]" 9 threeEntries] a b c
    by (simp add: Let_def snapshotOf_def entryOf_def textCanvas_def)
qed

subsection \<open>Dragging a rectangle or an ellipse\<close>

lemma move_rectangle:
  assumes "fabricCanvas s = Some cv" "currentObject s = Some a" "isDrawing s"
  shows "handleMouseMove Trectangle p mv s =
    s\<lparr>store := (store s)(a := (store s a)
      \<lparr>width := max 1 \<bar>fst p - left (store s a)\<bar>,
       height := max 1 \<bar>snd p - top' (store s a)\<bar>\<rparr>)\<rparr>"
  using assms by (simp add: handleMouseMove_def Let_def)

lemma move_ellipse:
  assumes "fabricCanvas s = Some cv" "currentObject s = Some a" "isDrawing s"
  shows "handleMouseMove Tellipse p mv s =
    s\<lparr>store := (store s)(a :=
      set_radii (max 1 \<bar>fst p - left (store s a)\<bar>) (max 1 \<bar>snd p - top' (store s a)\<bar>)
        (store s a))\<rparr>"
  using assms by (simp add: handleMouseMove_def Let_def)

lemma set_radii_keeps:
  "shape (set_radii a b obj) = shape obj" "left (set_radii a b obj) = left obj"
  "top' (set_radii a b obj) = top' obj"
  by (simp_all add: set_radii_def)

lemma set_radii_ellipse:
  "shape obj = Ellipse \<Longrightarrow>
     set_radii a b obj = obj\<lparr>rx := a, ry := b, width := 2 * a, height := 2 * b\<rparr>"
  by (simp add: set_radii_def)

lemma down_rectangle:
  assumes "fabricCanvas s = Some cv"
  shows "handleMouseDown d Trectangle q s =
    s\<lparr>isDrawing := True,
      store := (store s)(nextRef s := d\<lparr>shape := Rect, left := fst q, top' := snd q,
                      width := 0, height := 0\<rparr>),
      nextRef := nextRef s + 1, currentObject := Some (nextRef s),
      fabricCanvas := Some (cv @ [nextRef s])\<rparr>"
  using assms by (simp add: handleMouseDown_def addNew_def Let_def)

lemma down_ellipse:
  assumes "fabricCanvas s = Some cv"
  shows "handleMouseDown d Tellipse q s =
    s\<lparr>isDrawing := True,
      store := (store s)(nextRef s := d\<lparr>shape := Ellipse, left := fst q, top' := snd q,
                      rx := 0, ry := 0, width := 0, height := 0\<rparr>),
      nextRef := nextRef s + 1, currentObject := Some (nextRef s),
      fabricCanvas := Some (cv @ [nextRef s])\<rparr>"
  using assms by (simp add: handleMouseDown_def addNew_def set_radii_def Let_def)

lemma dragging_move_rectangle:
  "dragging cv a q s \<Longrightarrow> dragging cv a q (handleMouseMove Trectangle p mv s)"
  by (simp add: dragging_def move_rectangle [where cv = cv and a = a])

lemma dragging_move_ellipse:
  "dragging cv a q s \<Longrightarrow> dragging cv a q (handleMouseMove Tellipse p mv s)"
  by (simp add: dragging_def move_ellipse [where cv = cv and a = a] set_radii_keeps)

lemma dragging_moves_rectangle:
  "dragging cv a q s \<Longrightarrow> dragging cv a q (moves Trectangle ps s)"
  unfolding moves_def
  by (induction ps arbitrary: s) (simp_all add: dragging_move_rectangle)

lemma dragging_moves_ellipse:
  "dragging cv a q s \<Longrightarrow> dragging cv a q (moves Tellipse ps s)"
  unfolding moves_def
  by (induction ps arbitrary: s) (simp_all add: dragging_move_ellipse)

lemma moves_snoc: "moves t (ps @ [p]) s = handleMouseMove t p (0, 0) (moves t ps s)"
  by (simp add: moves_def)

lemma shape_moves_rectangle:
  "dragging cv a q s \<Longrightarrow> shape (store (moves Trectangle ps s) a) = shape (store s a)"
proof (induction ps arbitrary: s)
  case Nil
  then show ?case by (simp add: moves_def)
next
  case (Cons p ps)
  have d: "dragging cv a q (handleMouseMove Trectangle p (0, 0) s)"
    using Cons.prems by (rule dragging_move_rectangle)
  have "moves Trectangle (p # ps) s = moves Trectangle ps (handleMouseMove Trectangle p (0, 0) s)"
    by (simp add: moves_def)
  then show ?case using Cons.IH [OF d] Cons.prems
    by (simp add: dragging_def move_rectangle [where cv = cv and a = a])
qed

lemma shape_moves_ellipse:
  "dragging cv a q s \<Longrightarrow> shape (store (moves Tellipse ps s) a) = shape (store s a)"
proof (induction ps arbitrary: s)
  case Nil
  then show ?case by (simp add: moves_def)
next
  case (Cons p ps)
  have d: "dragging cv a q (handleMouseMove Tellipse p (0, 0) s)"
    using Cons.prems by (rule dragging_move_ellipse)
  have "moves Tellipse (p # ps) s = moves Tellipse ps (handleMouseMove Tellipse p (0, 0) s)"
    by (simp add: moves_def)
  then show ?case using Cons.IH [OF d] Cons.prems
    by (simp add: dragging_def move_ellipse [where cv = cv and a = a] set_radii_keeps)
qed

lemma drag_rectangle:
  assumes "fabricCanvas s = Some cv"
  shows "(let s' = moves Trectangle (ps @ [p]) (handleMouseDown d Trectangle q s);
              obj = store s' (nextRef s)
          in fabricCanvas s' = Some (cv @ [nextRef s]) \<and> currentObject s' = Some (nextRef s)
             \<and> shape obj = Rect \<and> left obj = fst q \<and> top' obj = snd q
             \<and> width obj = max 1 \<bar>fst p - fst q\<bar> \<and> height obj = max 1 \<bar>snd p - snd q\<bar>)"
proof -
  let ?a = "nextRef s"
  let ?cv = "cv @ [?a]"
  let ?s0 = "handleMouseDown d Trectangle q s"
  let ?s1 = "moves Trectangle ps ?s0"
  have d0: "dragging ?cv ?a q ?s0"
    by (simp add: down_rectangle [OF assms] dragging_def)
  have d1: "dragging ?cv ?a q ?s1" using d0 by (rule dragging_moves_rectangle)
  have sh: "shape (store ?s1 ?a) = Rect"
    using shape_moves_rectangle [OF d0, of ps] by (simp add: down_rectangle [OF assms])
  have m: "moves Trectangle (ps @ [p]) ?s0 =
    ?s1\<lparr>store := (store ?s1)(?a := (store ?s1 ?a)
      \<lparr>width := max 1 \<bar>fst p - left (store ?s1 ?a)\<bar>,
       height := max 1 \<bar>snd p - top' (store ?s1 ?a)\<bar>\<rparr>)\<rparr>"
    unfolding moves_snoc using d1
    by (intro move_rectangle [where cv = ?cv]) (simp_all add: dragging_def)
  show ?thesis
    unfolding Let_def m using d1 sh by (simp add: dragging_def)
qed

lemma drag_ellipse:
  assumes "fabricCanvas s = Some cv"
  shows "(let s' = moves Tellipse (ps @ [p]) (handleMouseDown d Tellipse q s);
              obj = store s' (nextRef s)
          in fabricCanvas s' = Some (cv @ [nextRef s]) \<and> currentObject s' = Some (nextRef s)
             \<and> shape obj = Ellipse \<and> left obj = fst q \<and> top' obj = snd q
             \<and> rx obj = max 1 \<bar>fst p - fst q\<bar> \<and> ry obj = max 1 \<bar>snd p - snd q\<bar>
             \<and> width obj = 2 * max 1 \<bar>fst p - fst q\<bar>
             \<and> height obj = 2 * max 1 \<bar>snd p - snd q\<bar>)"
proof -
  let ?a = "nextRef s"
  let ?cv = "cv @ [?a]"
  let ?s0 = "handleMouseDown d Tellipse q s"
  let ?s1 = "moves Tellipse ps ?s0"
  have d0: "dragging ?cv ?a q ?s0"
    by (simp add: down_ellipse [OF assms] dragging_def)
  have d1: "dragging ?cv ?a q ?s1" using d0 by (rule dragging_moves_ellipse)
  have sh: "shape (store ?s1 ?a) = Ellipse"
    using shape_moves_ellipse [OF d0, of ps] by (simp add: down_ellipse [OF assms])
  have m: "moves Tellipse (ps @ [p]) ?s0 =
    ?s1\<lparr>store := (store ?s1)(?a :=
      set_radii (max 1 \<bar>fst p - left (store ?s1 ?a)\<bar>) (max 1 \<bar>snd p - top' (store ?s1 ?a)\<bar>)
        (store ?s1 ?a))\<rparr>"
    unfolding moves_snoc using d1
    by (intro move_ellipse [where cv = ?cv]) (simp_all add: dragging_def)
  show ?thesis
    unfolding Let_def m using d1 sh by (simp add: dragging_def set_radii_ellipse)
qed

text \<open>
  Claim C5, amended. On an existing canvas, a pointer-move with the rectangle tool sets
  the width and the height of the object under construction to
  \<open>max 1 \<bar>pointer - anchor\<bar>\<close> on each axis and changes nothing else of it, so
  \<^verbatim>\<open>left\<close> and \<^verbatim>\<open>top\<close> stay. With the ellipse tool the handler sets the radii
  \<^verbatim>\<open>rx\<close> and \<^verbatim>\<open>ry\<close> to these values, and nothing else but what the library
  derives from them. After a pointer-down at \<open>q\<close> and any moves that end at \<open>p\<close>, the
  new object is on the canvas, anchored at \<open>q\<close>, with an extent computed from \<open>p\<close>
  alone: a rectangle has the width and the height \<open>max 1 \<bar>p - q\<bar>\<close>, an ellipse has
  these as its radii, and so twice these as its width and its height. A rectangle dragged
  from (10,10) to (110,60) has position (10,10), width 100 and height 50.
\<close>

theorem drag_sets_extent_from_anchor:
  assumes "fabricCanvas s = Some cv"
  shows "(currentObject s = Some a \<and> isDrawing s \<longrightarrow>
        store (handleMouseMove Trectangle p mv s) a
          = (store s a)\<lparr>width := max 1 \<bar>fst p - left (store s a)\<bar>,
                        height := max 1 \<bar>snd p - top' (store s a)\<bar>\<rparr>
        \<and> store (handleMouseMove Tellipse p mv s) a
          = set_radii (max 1 \<bar>fst p - left (store s a)\<bar>) (max 1 \<bar>snd p - top' (store s a)\<bar>)
              (store s a))
    \<and> (let s' = moves Trectangle (ps @ [p]) (handleMouseDown d Trectangle q s);
             obj = store s' (nextRef s)
         in fabricCanvas s' = Some (cv @ [nextRef s]) \<and> currentObject s' = Some (nextRef s)
            \<and> shape obj = Rect \<and> left obj = fst q \<and> top' obj = snd q
            \<and> width obj = max 1 \<bar>fst p - fst q\<bar> \<and> height obj = max 1 \<bar>snd p - snd q\<bar>)
    \<and> (let s' = moves Tellipse (ps @ [p]) (handleMouseDown d Tellipse q s);
             obj = store s' (nextRef s)
         in fabricCanvas s' = Some (cv @ [nextRef s]) \<and> currentObject s' = Some (nextRef s)
            \<and> shape obj = Ellipse \<and> left obj = fst q \<and> top' obj = snd q
            \<and> rx obj = max 1 \<bar>fst p - fst q\<bar> \<and> ry obj = max 1 \<bar>snd p - snd q\<bar>
            \<and> width obj = 2 * max 1 \<bar>fst p - fst q\<bar>
            \<and> height obj = 2 * max 1 \<bar>snd p - snd q\<bar>)
    \<and> (let s' = moves Trectangle (ps @ [(110, 60)]) (handleMouseDown d Trectangle (10, 10) s);
             obj = store s' (nextRef s)
         in shape obj = Rect \<and> left obj = 10 \<and> top' obj = 10
            \<and> width obj = 100 \<and> height obj = 50)"
proof -
  have a: "store (handleMouseMove Trectangle p mv s) a
          = (store s a)\<lparr>width := max 1 \<bar>fst p - left (store s a)\<bar>,
                        height := max 1 \<bar>snd p - top' (store s a)\<bar>\<rparr>
        \<and> store (handleMouseMove Tellipse p mv s) a
          = set_radii (max 1 \<bar>fst p - left (store s a)\<bar>) (max 1 \<bar>snd p - top' (store s a)\<bar>)
              (store s a)"
    if "currentObject s = Some a \<and> isDrawing s"
    using that assms
    by (simp add: move_rectangle [where cv = cv and a = a] move_ellipse [where cv = cv and a = a])
  have b: "(let s' = moves Trectangle (ps @ [(110, 60)]) (handleMouseDown d Trectangle (10, 10) s);
             obj = store s' (nextRef s)
         in shape obj = Rect \<and> left obj = 10 \<and> top' obj = 10
            \<and> width obj = 100 \<and> height obj = 50)"
    using drag_rectangle [OF assms, of ps "(110, 60)" d "(10, 10)"] by (simp add: Let_def)
  from a b drag_rectangle [OF assms, of ps p d q] drag_ellipse [OF assms, of ps p d q]
  show ?thesis by blast
qed

theorem drag_sets_extent_from_anchor_witness:
  "fabricCanvas blankDrawing = Some []
   \<and> width (store (moves Trectangle [(50, 20), (110, 60)]
        (handleMouseDown blankObject Trectangle (10, 10) blankDrawing)) 0) = 100
   \<and> height (store (moves Trectangle [(50, 20), (110, 60)]
        (handleMouseDown blankObject Trectangle (10, 10) blankDrawing)) 0) = 50
   \<and> left (store (moves Trectangle [(50, 20), (110, 60)]
        (handleMouseDown blankObject Trectangle (10, 10) blankDrawing)) 0) = 10
   \<and> top' (store (moves Trectangle [(50, 20), (110, 60)]
        (handleMouseDown blankObject Trectangle (10, 10) blankDrawing)) 0) = 10
   \<and> rx (store (moves Tellipse [(50, 20), (5, 60)]
        (handleMouseDown blankObject Tellipse (10, 10) blankDrawing)) 0) = 5
   \<and> height (store (moves Tellipse [(50, 20), (5, 60)]
        (handleMouseDown blankObject Tellipse (10, 10) blankDrawing)) 0) = 100"
proof -
  have c: "fabricCanvas blankDrawing = Some []" by (simp add: blankDrawing_def emptyDrawing_def)
  have n: "nextRef blankDrawing = 0" by (simp add: blankDrawing_def emptyDrawing_def)
  show ?thesis
    using drag_sets_extent_from_anchor [OF c, of 0 "(0, 0)" "(0, 0)" "[(50, 20)]" blankObject
        "(10, 10)"]
      drag_sets_extent_from_anchor [OF c, of 0 "(5, 60)" "(0, 0)" "[(50, 20)]" blankObject
        "(10, 10)"] c n
    by (simp add: Let_def)
qed

text \<open>
  Claim C5 as written gives an ellipse the width and the height
  \<open>max 1 \<bar>pointer - anchor\<bar>\<close>. An ellipse dragged from (10,10) to (110,60) on an
  empty canvas has the radii 100 and 50; its width is 200 and its height is 100, not
  100 and 50.
\<close>

theorem ellipse_extent_is_twice_the_drag:
  "(let obj = store (moves Tellipse [(110, 60)]
                (handleMouseDown blankObject Tellipse (10, 10) blankDrawing)) 0
    in shape obj = Ellipse \<and> left obj = 10 \<and> top' obj = 10
       \<and> rx obj = 100 \<and> ry obj = 50 \<and> width obj = 200 \<and> height obj = 100
       \<and> width obj \<noteq> max 1 \<bar>110 - 10\<bar> \<and> height obj \<noteq> max 1 \<bar>60 - 10\<bar>)"
  by (simp add: moves_def handleMouseMove_def handleMouseDown_def addNew_def set_radii_def
      blankDrawing_def emptyDrawing_def blankObject_def Let_def)

subsection \<open>Deleting a layer\<close>

lemma canvasArg_saveState [simp]: "canvasArg (useHistory_saveState fab now h) = canvasArg h"
  by (simp add: useHistory_saveState_def Let_def split: option.splits)

lemma canvasArg_handleHistoryEvent [simp]:
  "canvasArg (handleHistoryEvent fab now h) = canvasArg h"
  by (simp add: handleHistoryEvent_def)

lemma canvasArg_removeNonGrid:
  assumes "canvasArg h = Some (pre @ objs)" "\<forall>x \<in> set pre. g x"
  shows "canvasArg (snd (removeNonGrid fab g clock objs (k, h))) = Some (pre @ filter g objs)"
  using assms
proof (induction objs arbitrary: pre k h)
  case Nil
  then show ?case by simp
next
  case (Cons obj objs)
  show ?case
  proof (cases "g obj")
    case True
    have "canvasArg (snd (removeNonGrid fab g clock objs (k, h)))
        = Some ((pre @ [obj]) @ filter g objs)"
      using Cons.prems True by (intro Cons.IH) simp_all
    then show ?thesis using True by simp
  next
    case False
    then have "obj \<notin> set pre" using Cons.prems(2) by auto
    then have r: "remove1 obj (pre @ obj # objs) = pre @ objs"
      by (simp add: remove1_append)
    have "canvasArg (snd (removeNonGrid fab g clock objs
            (k + 1, canvas_remove fab (clock k) obj h))) = Some (pre @ filter g objs)"
      using Cons.prems r by (intro Cons.IH) (simp_all add: canvas_remove_def)
    then show ?thesis using False by simp
  qed
qed

lemma canvasArg_addAll:
  "canvasArg (snd (addAll fab clock objs (k, h))) = map_option (\<lambda>c. c @ objs) (canvasArg h)"
proof (induction objs arbitrary: k h)
  case Nil
  then show ?case by (simp add: option.map_ident)
next
  case (Cons obj objs)
  show ?case
    by (simp add: Cons.IH canvas_add_def option.map_comp comp_def)
qed

lemma filter_keeps_others:
  "distinct (map f xs) \<Longrightarrow> length xs - 1 \<le> length (filter (\<lambda>x. f x \<noteq> i) xs)"
proof (induction xs)
  case Nil
  then show ?case by simp
next
  case (Cons x xs)
  show ?case
  proof (cases "f x = i")
    case True
    then have "\<forall>y \<in> set xs. f y \<noteq> i" using Cons.prems by (auto simp: image_iff)
    then have "filter (\<lambda>x. f x \<noteq> i) xs = xs" by (simp add: filter_id_conv)
    then show ?thesis using True by simp
  next
    case False
    then show ?thesis using Cons by auto
  qed
qed

text \<open>
  Claim C6, amended. With at most one layer, \<^verbatim>\<open>handleLayerDelete\<close> refuses: it
  opens the error notification \<^verbatim>\<open>Cannot delete the last layer\<close> and returns
  normally, no exception is thrown; the layers, the active layer, the canvas and the
  history are as before. With more layers
  the layers of the given id are removed. When the ids are distinct and the deleted
  layer was the active one, a layer remains, the first remaining layer becomes active,
  and the canvas holds its grid lines followed by the drawables stored in that layer.
\<close>

theorem deleteLayer_keeps_last_layer:
  "(length (layers s) \<le> 1 \<longrightarrow>
      handleLayerDelete fab g clock i s = (None, s\<lparr>notification := lastLayerNotice\<rparr>))
   \<and> (1 < length (layers s) \<longrightarrow>
      layers (snd (handleLayerDelete fab g clock i s))
        = filter (\<lambda>layer. layerId layer \<noteq> i) (layers s))
   \<and> (1 < length (layers s) \<and> distinct (map layerId (layers s)) \<and> currentLayerId s = Some i \<longrightarrow>
      (\<exists>first rest. filter (\<lambda>layer. layerId layer \<noteq> i) (layers s) = first # rest
         \<and> fst (handleLayerDelete fab g clock i s) = None
         \<and> currentLayerId (snd (handleLayerDelete fab g clock i s)) = Some (layerId first)
         \<and> canvasArg (hist (snd (handleLayerDelete fab g clock i s)))
           = map_option (\<lambda>objs. filter g objs @ objects first) (canvasArg (hist s))))"
proof -
  let ?rest = "filter (\<lambda>layer. layerId layer \<noteq> i) (layers s)"
  have a: "handleLayerDelete fab g clock i s = (None, s\<lparr>notification := lastLayerNotice\<rparr>)"
    if "length (layers s) \<le> 1"
    using that by (simp add: handleLayerDelete_def lastLayerNotice_def)
  have b: "layers (snd (handleLayerDelete fab g clock i s)) = ?rest"
    if "1 < length (layers s)"
    using that
    by (simp add: handleLayerDelete_def Let_def split: list.splits option.splits)
  have c: "\<exists>first rest. ?rest = first # rest
         \<and> fst (handleLayerDelete fab g clock i s) = None
         \<and> currentLayerId (snd (handleLayerDelete fab g clock i s)) = Some (layerId first)
         \<and> canvasArg (hist (snd (handleLayerDelete fab g clock i s)))
           = map_option (\<lambda>objs. filter g objs @ objects first) (canvasArg (hist s))"
    if h: "1 < length (layers s) \<and> distinct (map layerId (layers s)) \<and> currentLayerId s = Some i"
  proof -
    have "length (layers s) - 1 \<le> length ?rest"
      using h by (intro filter_keeps_others) simp
    then have "?rest \<noteq> []" using h by auto
    then obtain first rest where fr: "?rest = first # rest" by (cases ?rest) auto
    show ?thesis
    proof (cases "canvasArg (hist s)")
      case None
      then show ?thesis using h fr
        by (simp add: handleLayerDelete_def Let_def)
    next
      case (Some objs)
      let ?h2 = "hist (s\<lparr>layers := ?rest, currentLayerId := Some (layerId first)\<rparr>)"
      have r: "canvasArg (snd (removeNonGrid fab g clock objs (0, ?h2))) = Some ([] @ filter g objs)"
        using Some by (intro canvasArg_removeNonGrid) simp_all
      obtain k h' where kh: "removeNonGrid fab g clock objs (0, ?h2) = (k, h')"
        by (cases "removeNonGrid fab g clock objs (0, ?h2)")
      have "canvasArg (snd (addAll fab clock (objects first) (k, h')))
          = Some (filter g objs @ objects first)"
        using r kh by (simp add: canvasArg_addAll)
      then show ?thesis using h fr Some kh
        by (simp add: handleLayerDelete_def Let_def)
    qed
  qed
  from a b c show ?thesis by blast
qed

theorem deleteLayer_keeps_last_layer_witness:
  "length (layers oneLayer) \<le> 1
   \<and> handleLayerDelete listCanvas (\<lambda>n. n < 10) (\<lambda>k. k) ''A'' oneLayer
       = (None, oneLayer\<lparr>notification := lastLayerNotice\<rparr>)
   \<and> 1 < length (layers twoLayers) \<and> distinct (map layerId (layers twoLayers))
   \<and> currentLayerId twoLayers = Some ''A''
   \<and> layers (snd (handleLayerDelete listCanvas (\<lambda>n. n < 10) (\<lambda>k. k) ''A'' twoLayers)) = [layerB]
   \<and> currentLayerId (snd (handleLayerDelete listCanvas (\<lambda>n. n < 10) (\<lambda>k. k) ''A'' twoLayers))
       = Some ''B''
   \<and> canvasArg (hist (snd (handleLayerDelete listCanvas (\<lambda>n. n < 10) (\<lambda>k. k) ''A'' twoLayers)))
       = Some [1, 2, 12, 13]"
proof -
  have a: "length (layers oneLayer) \<le> 1" by (simp add: oneLayer_def)
  have b: "1 < length (layers twoLayers) \<and> distinct (map layerId (layers twoLayers))
      \<and> currentLayerId twoLayers = Some ''A''"
    by (simp add: twoLayers_def layerA_def layerB_def)
  have f: "filter (\<lambda>layer. layerId layer \<noteq> ''A'') (layers twoLayers) = [layerB]"
    by (simp add: twoLayers_def layerA_def layerB_def)
  have c: "canvasArg (hist twoLayers) = Some [1, 2, 11]"
    by (simp add: twoLayers_def mountHistory_eq)
  show ?thesis
    using deleteLayer_keeps_last_layer [of oneLayer listCanvas "\<lambda>n. n < 10" "\<lambda>k. k" "''A''"]
      deleteLayer_keeps_last_layer [of twoLayers listCanvas "\<lambda>n. n < 10" "\<lambda>k. k" "''A''"]
      a b f c
    by (auto simp: layerB_def)
qed

text \<open>
  Claim C6 as written makes the deletion of the only layer fail with an error that is
  raised. The handler raises nothing: on a document with the one layer \<open>A\<close>,
  \<^verbatim>\<open>handleLayerDelete\<close> returns normally, and the refusal is the notification
  that it leaves open.
\<close>

theorem last_layer_refusal_raises_nothing:
  "length (layers oneLayer) = 1
   \<and> fst (handleLayerDelete listCanvas (\<lambda>n. n < 10) (\<lambda>k. k) ''A'' oneLayer) = None
   \<and> (\<nexists>e. fst (handleLayerDelete listCanvas (\<lambda>n. n < 10) (\<lambda>k. k) ''A'' oneLayer) = Some e)
   \<and> notification (snd (handleLayerDelete listCanvas (\<lambda>n. n < 10) (\<lambda>k. k) ''A'' oneLayer))
       = \<lparr>isOpen = True, message = ''Cannot delete the last layer'', severity = Error\<rparr>
   \<and> layers (snd (handleLayerDelete listCanvas (\<lambda>n. n < 10) (\<lambda>k. k) ''A'' oneLayer))
       = layers oneLayer"
  by (simp add: handleLayerDelete_def oneLayer_def)

subsection \<open>Gradient stops\<close>

lemma sorted_take_drop:
  "sorted ys \<Longrightarrow> sorted (take n ys @ drop (Suc n) ys)"
proof -
  assume s: "sorted ys"
  have "ys = take n ys @ drop n ys" by simp
  have d: "drop n ys = take 1 (drop n ys) @ drop (Suc n) ys"
    by (metis One_nat_def Suc_eq_plus1 append_take_drop_id drop_drop add.commute)
  have "sorted (take n ys @ take 1 (drop n ys) @ drop (Suc n) ys)"
    using s d by (metis append_take_drop_id)
  then show ?thesis
    by (auto simp: sorted_append)
qed

lemma js_splice1_cases:
  "js_splice1 i xs = xs \<or> (\<exists>n < length xs. js_splice1 i xs = take n xs @ drop (Suc n) xs)"
proof (cases "i < 0")
  case True
  let ?n = "nat (max (int (length xs) + i) 0)"
  have "?n < length xs \<or> xs = []" using True by (cases xs) (auto simp: max_def)
  then show ?thesis using True by (auto simp: js_splice1_def Let_def)
next
  case False
  let ?n = "nat (min i (int (length xs)))"
  show ?thesis
  proof (cases "i < int (length xs)")
    case True
    then have "?n < length xs" using False by auto
    then show ?thesis using False by (auto simp: js_splice1_def Let_def)
  next
    case False
    then show ?thesis using \<open>\<not> i < 0\<close> by (simp add: js_splice1_def Let_def min_def)
  qed
qed

lemma stops_ok_remove: "stops_ok stops \<Longrightarrow> stops_ok (handleRemoveStop i stops)"
proof -
  assume ok: "stops_ok stops"
  show ?thesis
  proof (cases "length stops \<le> 2")
    case True
    then show ?thesis using ok by (simp add: handleRemoveStop_def)
  next
    case False
    from js_splice1_cases [of i stops] show ?thesis
    proof
      assume "js_splice1 i stops = stops"
      then show ?thesis using ok False by (simp add: handleRemoveStop_def)
    next
      assume "\<exists>n<length stops. js_splice1 i stops = take n stops @ drop (Suc n) stops"
      then obtain n where n: "n < length stops"
        "js_splice1 i stops = take n stops @ drop (Suc n) stops" by blast
      have "sorted (take n (map offset stops) @ drop (Suc n) (map offset stops))"
        using ok by (intro sorted_take_drop) (simp add: stops_ok_def)
      then show ?thesis using ok False n
        by (auto simp: handleRemoveStop_def stops_ok_def take_map drop_map)
    qed
  qed
qed

lemma stops_ok_add: "stops_ok stops \<Longrightarrow> stops_ok (handleAddStop stops)"
  by (auto simp: stops_ok_def handleAddStop_def)

lemma handleOffsetChange_in_range:
  assumes "0 \<le> i" "i < int (length stops)"
  shows "handleOffsetChange i x stops
    = Inr (sort_key offset (stops[nat i := (stops ! nat i)\<lparr>offset := min 1 (max 0 x)\<rparr>]))"
  using assms by (simp add: handleOffsetChange_def Let_def)

text \<open>
  Claim C7. From a list of stops that is sorted by offset and has between 2 and 10
  stops, each handler gives such a list again. Adding is refused at 10 stops and adds
  exactly one stop below that; removing is refused at 2 stops and removes exactly the
  stop at the index above that; changing the offset of a stop of the list clamps the
  new offset into [0,1], replaces the offset of that stop and sorts the list.
\<close>

theorem gradient_stops_stay_ordered:
  assumes "stops_ok stops"
  shows "stops_ok (handleAddStop stops)
    \<and> (length stops = 10 \<longrightarrow> handleAddStop stops = stops)
    \<and> (length stops < 10 \<longrightarrow>
         mset (handleAddStop stops)
           = mset stops + {#\<lparr>offset = newOffset (map offset stops), color = ''#888888''\<rparr>#})
    \<and> stops_ok (handleRemoveStop i stops)
    \<and> (length stops = 2 \<longrightarrow> handleRemoveStop i stops = stops)
    \<and> (2 < length stops \<and> 0 \<le> i \<and> i < int (length stops) \<longrightarrow>
         handleRemoveStop i stops = take (nat i) stops @ drop (nat i + 1) stops)
    \<and> (0 \<le> i \<and> i < int (length stops) \<longrightarrow>
         (\<exists>ns. handleOffsetChange i x stops = Inr ns \<and> stops_ok ns
            \<and> mset ns = mset (stops[nat i := (stops ! nat i)\<lparr>offset := min 1 (max 0 x)\<rparr>])
            \<and> 0 \<le> min 1 (max 0 x) \<and> min 1 (max 0 x) \<le> 1))"
proof -
  have a: "stops_ok (handleAddStop stops)" using assms by (rule stops_ok_add)
  have b: "length stops = 10 \<longrightarrow> handleAddStop stops = stops"
    by (simp add: handleAddStop_def)
  have c: "length stops < 10 \<longrightarrow>
         mset (handleAddStop stops)
           = mset stops + {#\<lparr>offset = newOffset (map offset stops), color = ''#888888''\<rparr>#}"
    by (simp add: handleAddStop_def)
  have d: "stops_ok (handleRemoveStop i stops)" using assms by (rule stops_ok_remove)
  have e: "length stops = 2 \<longrightarrow> handleRemoveStop i stops = stops"
    by (simp add: handleRemoveStop_def)
  have f: "2 < length stops \<and> 0 \<le> i \<and> i < int (length stops) \<longrightarrow>
         handleRemoveStop i stops = take (nat i) stops @ drop (nat i + 1) stops"
    by (auto simp: handleRemoveStop_def js_splice1_def Let_def min_def)
  have g: "\<exists>ns. handleOffsetChange i x stops = Inr ns \<and> stops_ok ns
            \<and> mset ns = mset (stops[nat i := (stops ! nat i)\<lparr>offset := min 1 (max 0 x)\<rparr>])
            \<and> 0 \<le> min 1 (max 0 x) \<and> min 1 (max 0 x) \<le> 1"
    if "0 \<le> i \<and> i < int (length stops)"
    using that assms handleOffsetChange_in_range [of i stops x]
    by (simp add: stops_ok_def)
  from a b c d e f g show ?thesis by blast
qed

theorem gradient_stops_stay_ordered_witness:
  "stops_ok threeStops \<and> stops_ok twoStops \<and> stops_ok tenStops
   \<and> stops_ok (handleAddStop threeStops) \<and> length (handleAddStop threeStops) = 4
   \<and> handleAddStop tenStops = tenStops
   \<and> handleRemoveStop 0 twoStops = twoStops
   \<and> handleRemoveStop 1 threeStops = twoStops
   \<and> (\<exists>ns. handleOffsetChange 0 2 threeStops = Inr ns \<and> stops_ok ns)"
proof -
  have a: "stops_ok threeStops" by (simp add: stops_ok_def threeStops_def)
  have b: "stops_ok twoStops" by (simp add: stops_ok_def twoStops_def)
  have c: "stops_ok tenStops" by (simp add: stops_ok_def tenStops_def)
  have l: "length threeStops = 3" "length twoStops = 2" "length tenStops = 10"
    by (simp_all add: threeStops_def twoStops_def tenStops_def)
  have r: "take (nat 1) threeStops @ drop (nat 1 + 1) threeStops = twoStops"
    by (simp add: threeStops_def twoStops_def)
  note t1 = gradient_stops_stay_ordered [OF a, of 1 2]
  note t0 = gradient_stops_stay_ordered [OF a, of 0 2]
  note t2 = gradient_stops_stay_ordered [OF b, of 0 2]
  note t10 = gradient_stops_stay_ordered [OF c, of 0 2]
  have d: "stops_ok (handleAddStop threeStops)" using t1 by blast
  have "size (mset (handleAddStop threeStops)) = size (mset threeStops) + 1"
    using t1 l by simp
  then have e: "length (handleAddStop threeStops) = 4" using l by simp
  have f: "handleAddStop tenStops = tenStops" using t10 l by blast
  have g: "handleRemoveStop 0 twoStops = twoStops" using t2 l by blast
  have h: "handleRemoveStop 1 threeStops = twoStops" using t1 l r by simp
  have i: "\<exists>ns. handleOffsetChange 0 2 threeStops = Inr ns \<and> stops_ok ns"
    using t0 l by auto
  from a b c d e f g h i show ?thesis by blast
qed

subsection \<open>Coordinates of a linear gradient\<close>

lemma opposite_angle: "(theta + 180) * pi / 180 = theta * pi / 180 + pi"
  by (simp add: field_simps)

lemma specEndPoint_opposite:
  "specEndPoint (theta + 180)
     = (real_of_int (round (50 + sin (theta * pi / 180 + pi) * 50)),
        real_of_int (round (50 + cos (theta * pi / 180 + pi) * 50)))"
  unfolding specEndPoint_def opposite_angle ..

lemma round_in_box:
  assumes "- 1 \<le> (t::real)" "t \<le> 1"
  shows "0 \<le> round (50 + t * 50) \<and> round (50 + t * 50) \<le> 100"
proof -
  have "round (0::real) \<le> round (50 + t * 50)" using assms by (intro round_mono) simp
  moreover have "round (50 + t * 50) \<le> round (100::real)" using assms by (intro round_mono) simp
  ultimately show ?thesis by simp
qed

lemma specEndPoint_in_box:
  "0 \<le> fst (specEndPoint theta) \<and> fst (specEndPoint theta) \<le> 100
   \<and> 0 \<le> snd (specEndPoint theta) \<and> snd (specEndPoint theta) \<le> 100"
  using round_in_box [of "sin (theta * pi / 180)"] round_in_box [of "cos (theta * pi / 180)"]
  by (simp add: specEndPoint_def)

lemma specEndPoint_90: "specEndPoint 90 = (100, 50)"
proof -
  have "(90::real) * pi / 180 = pi / 2" by simp
  then show ?thesis by (simp add: specEndPoint_def)
qed

lemma specEndPoint_270: "specEndPoint (90 + 180) = (0, 50)"
proof -
  have h: "(90::real) * pi / 180 = pi / 2" by simp
  have s: "sin (pi / 2 + pi) = - 1" by (simp only: sin_periodic_pi sin_pi_half)
  have c: "cos (pi / 2 + pi) = 0" by (simp only: cos_periodic_pi cos_pi_half minus_zero)
  show ?thesis by (simp only: specEndPoint_opposite h s c) simp
qed

text \<open>
  Claim C8. The coordinates that \<^verbatim>\<open>createLinearGradient\<close> computes are the end point
  of the specification's formula at the angle, and its end point at the angle plus 180
  degrees as the start; they depend on the angle alone, not on the drawable or the
  colours. \<^verbatim>\<open>handleApply\<close> of the editor computes the same coordinates, whatever the
  stops. Each coordinate lies in the box from 0 to 100. At 90 degrees, with the stops
  white at 0 and black at 1, the coordinates are (0,50) and (100,50).
\<close>

theorem linear_gradient_coordinates:
  "gradCoords (createLinearGradient obj c1 c2 theta)
     = \<lparr>gx1 = Some (fst (specEndPoint (theta + 180))), gy1 = Some (snd (specEndPoint (theta + 180))),
        gx2 = Some (fst (specEndPoint theta)), gy2 = Some (snd (specEndPoint theta)),
        gr1 = None, gr2 = None\<rparr>
   \<and> coords (handleApply Linear stops theta radius)
     = Some (gradCoords (createLinearGradient obj c1 c2 theta))
   \<and> 0 \<le> fst (specEndPoint theta) \<and> fst (specEndPoint theta) \<le> 100
   \<and> 0 \<le> snd (specEndPoint theta) \<and> snd (specEndPoint theta) \<le> 100
   \<and> gradCoords (createLinearGradient obj ''#ffffff'' ''#000000'' 90)
     = \<lparr>gx1 = Some 0, gy1 = Some 50, gx2 = Some 100, gy2 = Some 50, gr1 = None, gr2 = None\<rparr>
   \<and> coords (handleApply Linear
        [\<lparr>offset = 0, color = ''#ffffff''\<rparr>, \<lparr>offset = 1, color = ''#000000''\<rparr>] 90 radius)
     = Some \<lparr>gx1 = Some 0, gy1 = Some 50, gx2 = Some 100, gy2 = Some 50, gr1 = None, gr2 = None\<rparr>"
proof -
  have a: "gradCoords (createLinearGradient obj c1 c2 t)
     = \<lparr>gx1 = Some (fst (specEndPoint (t + 180))), gy1 = Some (snd (specEndPoint (t + 180))),
        gx2 = Some (fst (specEndPoint t)), gy2 = Some (snd (specEndPoint t)),
        gr1 = None, gr2 = None\<rparr>" for obj :: 'a and c1 c2 t
    unfolding specEndPoint_opposite by (simp add: createLinearGradient_def Let_def specEndPoint_def)
  have b: "coords (handleApply Linear st t radius)
     = Some (gradCoords (createLinearGradient obj c1 c2 t))" for st t
    by (simp add: handleApply_def createLinearGradient_def Let_def)
  have c: "gradCoords (createLinearGradient obj c1 c2 90)
     = \<lparr>gx1 = Some 0, gy1 = Some 50, gx2 = Some 100, gy2 = Some 50, gr1 = None, gr2 = None\<rparr>"
    for obj :: 'a and c1 c2
    unfolding a specEndPoint_270 specEndPoint_90 by simp
  show ?thesis
    using a [of obj c1 c2 theta] b specEndPoint_in_box [of theta] c [of obj]
    by simp
qed

theorem linear_gradient_coordinates_witness:
  "gradCoords (createLinearGradient () ''#ff0000'' ''#0000ff'' 0)
     = \<lparr>gx1 = Some 50, gy1 = Some 0, gx2 = Some 50, gy2 = Some 100, gr1 = None, gr2 = None\<rparr>"
proof -
  have a: "specEndPoint 0 = (50, 100)" by (simp add: specEndPoint_def)
  have b: "specEndPoint (0 + 180) = (50, 0)" unfolding specEndPoint_opposite by simp
  show ?thesis
    using linear_gradient_coordinates [of "()" "''#ff0000''" "''#0000ff''" 0] a b by simp
qed

subsection \<open>Export to a format that is not implemented\<close>

text \<open>
  Claim C9, amended. \<^verbatim>\<open>exportToFormat\<close> on \<^verbatim>\<open>pdf\<close>, \<^verbatim>\<open>eps\<close> or
  \<^verbatim>\<open>ai\<close> returns normally: it throws nothing, shows one alert that the export is
  coming soon, hands no file to \<^verbatim>\<open>saveAs\<close> and leaves the canvas as it is.
\<close>

theorem stub_export_only_alerts:
  "exportToFormat fab ''pdf'' filename w
     = Inr (w\<lparr>alerts := alerts w @ [''PDF export coming soon. For now, try SVG format.'']\<rparr>)
   \<and> exportToFormat fab ''eps'' filename w
     = Inr (w\<lparr>alerts := alerts w @ [''EPS export coming soon. For now, try SVG format.'']\<rparr>)
   \<and> exportToFormat fab ''ai'' filename w
     = Inr (w\<lparr>alerts := alerts w @ [''AI export coming soon. For now, try SVG format.'']\<rparr>)"
  by (simp add: exportToFormat_def exportToPDF_def exportToEPS_def exportToAI_def)

theorem stub_export_only_alerts_witness:
  "exportToFormat textCanvas ''eps'' ''drawing'' blankWorld
     = Inr \<lparr>canvasContent = ''rect'',
            alerts = [''EPS export coming soon. For now, try SVG format.''],
            savedFiles = [], consoleErrors = []\<rparr>"
  using stub_export_only_alerts [of textCanvas "''drawing''" blankWorld]
  by (simp add: blankWorld_def)

text \<open>
  Claim C9 as written has these exports fail with an exception. On a canvas of content
  \<^verbatim>\<open>rect\<close>, exporting to \<^verbatim>\<open>pdf\<close> returns a world with one more alert, and none of
  the three exports gives an exception.
\<close>

theorem pdf_export_raises_nothing:
  "exportToFormat textCanvas ''pdf'' ''drawing'' blankWorld
     = Inr (blankWorld\<lparr>alerts := [''PDF export coming soon. For now, try SVG format.'']\<rparr>)
   \<and> \<not> isl (exportToFormat textCanvas ''pdf'' ''drawing'' blankWorld)
   \<and> \<not> isl (exportToFormat textCanvas ''eps'' ''drawing'' blankWorld)
   \<and> \<not> isl (exportToFormat textCanvas ''ai'' ''drawing'' blankWorld)"
  by (simp add: exportToFormat_def exportToPDF_def exportToEPS_def exportToAI_def blankWorld_def)

end
